theory Spec2Isabelle
  imports Complex_Main
begin

section \<open>Settings\<close>

text \<open>
  The three module constants of \<^verbatim>\<open>main.py\<close> (lines 7 to 9). The functions below read
  them from a record, so that statements can range over every setting; the values of
  the source are \<open>default_config\<close>.
\<close>

record config =
  TEST_DURATION_SECONDS :: int
  TENSOR_SIZE :: int
  NUM_CPU_THREADS :: int

definition default_config :: config where
  "default_config =
     \<lparr>TEST_DURATION_SECONDS = 2 * 60 * 60, TENSOR_SIZE = 2048, NUM_CPU_THREADS = 4\<rparr>"

section \<open>The library calls the program makes\<close>

text \<open>
  The program is built from calls into numpy, TensorFlow, \<^verbatim>\<open>time\<close> and
  \<^verbatim>\<open>threading\<close>. Each call is modelled by what it returns and what it changes, as far
  as the program can observe it. Matrix elements are of an arbitrary type \<open>'a\<close> with a
  zero, an addition and a multiplication, of which no law is assumed; the clock is read
  as an exact rational number of seconds and the addition \<^verbatim>\<open>time.time() + D\<close> is
  exact.
\<close>

datatype error = ValueError | InvalidArgumentError | UnboundLocalError

datatype dtype = Float64 | Float32

datatype device = Host | GPU0

record 'a ndarray =
  shape :: "nat \<times> nat"
  dtype :: dtype
  device :: device
  data :: "'a list"

type_synonym tensor_spec = "(nat \<times> nat) \<times> dtype"

type_synonym signature = "tensor_spec \<times> tensor_spec"

text \<open>
  A traced graph of \<^verbatim>\<open>tf.function\<close>: its nodes are the arguments of the traced
  function and the operations recorded while the Python body ran.
\<close>

datatype graph = Placeholder nat | MatMul graph graph

text \<open>
  What the environment decides: the values the random number generators deliver, in the
  order they are drawn, and whether a GPU is present.
\<close>

record 'a env =
  entropy :: "nat \<Rightarrow> 'a"
  gpu_available :: bool

text \<open>
  What the threads of the process share: the wall clock, standard output (one entry per
  printed line), the objects allocated so far (an object's address is its position;
  nothing in the program frees or overwrites one), the number of random values drawn and
  the cache of traces of the one \<^verbatim>\<open>tf.function\<close> of the program.
\<close>

record 'a world =
  clock :: rat
  stdout :: "string list"
  heap :: "'a ndarray list"
  drawn :: nat
  traces :: "(signature \<times> graph) list"

definition py_print :: "string \<Rightarrow> 'a world \<Rightarrow> 'a world" where
  "py_print msg w = w\<lparr>stdout := stdout w @ [msg]\<rparr>"

definition time_time :: "'a world \<Rightarrow> rat" where
  "time_time w = clock w"

definition draw :: "'a env \<Rightarrow> nat \<Rightarrow> 'a world \<Rightarrow> 'a list \<times> 'a world" where
  "draw E n w = (map (entropy E) [drawn w ..< drawn w + n], w\<lparr>drawn := drawn w + n\<rparr>)"

definition new_object :: "'a ndarray \<Rightarrow> 'a world \<Rightarrow> nat \<times> 'a world" where
  "new_object m w = (length (heap w), w\<lparr>heap := heap w @ [m]\<rparr>)"

text \<open>
  \<^verbatim>\<open>np.random.rand(d0, d1)\<close>: a \<open>d0\<close> by \<open>d1\<close> array of 64-bit floats in row-major
  order; a negative dimension raises \<^verbatim>\<open>ValueError\<close>, a zero dimension gives an empty
  array.
\<close>

definition np_random_rand ::
  "'a env \<Rightarrow> int \<Rightarrow> int \<Rightarrow> 'a world \<Rightarrow> error + ('a ndarray \<times> 'a world)" where
  "np_random_rand E d0 d1 w =
     (if d0 < 0 \<or> d1 < 0 then Inl ValueError
      else (case draw E (nat d0 * nat d1) w of
              (xs, w') \<Rightarrow>
                Inr (\<lparr>shape = (nat d0, nat d1), dtype = Float64, device = Host, data = xs\<rparr>,
                     w')))"

text \<open>
  \<^verbatim>\<open>with tf.device('/GPU:0')\<close>: operations run on the GPU when there is one and on
  the host otherwise (soft placement).
\<close>

definition tf_device :: "'a env \<Rightarrow> device \<Rightarrow> device" where
  "tf_device E d = (if d = GPU0 \<and> \<not> gpu_available E then Host else d)"

text \<open>
  \<^verbatim>\<open>tf.random.normal((d0, d1))\<close>: a tensor of 32-bit floats (the default dtype) on the
  device of the enclosing block; a negative dimension raises
  \<^verbatim>\<open>InvalidArgumentError\<close>.
\<close>

definition tf_random_normal ::
  "'a env \<Rightarrow> device \<Rightarrow> int \<times> int \<Rightarrow> 'a world \<Rightarrow> error + ('a ndarray \<times> 'a world)" where
  "tf_random_normal E dev dims w =
     (if fst dims < 0 \<or> snd dims < 0 then Inl InvalidArgumentError
      else (case draw E (nat (fst dims) * nat (snd dims)) w of
              (xs, w') \<Rightarrow>
                Inr (\<lparr>shape = (nat (fst dims), nat (snd dims)), dtype = Float32,
                      device = dev, data = xs\<rparr>, w')))"

definition entry :: "'a ndarray \<Rightarrow> nat \<Rightarrow> nat \<Rightarrow> 'a" where
  "entry m i j = data m ! (i * snd (shape m) + j)"

text \<open>
  The entries of a matrix product, row by row. The order in which a numeric library adds
  the products of one entry is its own; this one adds them from left to right.
\<close>

definition matmul_data :: "('a::{zero,plus,times}) ndarray \<Rightarrow> 'a ndarray \<Rightarrow> 'a list" where
  "matmul_data x y =
     concat (map (\<lambda>i. map (\<lambda>j. foldl (\<lambda>acc k. acc + entry x i k * entry y k j) 0
                                   [0 ..< snd (shape x)])
                        [0 ..< snd (shape y)])
                 [0 ..< fst (shape x)])"

text \<open>
  \<^verbatim>\<open>np.dot(x, y)\<close> on two-dimensional arrays: the matrix product, a new array;
  \<^verbatim>\<open>ValueError\<close> when the inner dimensions differ.
\<close>

definition np_dot :: "('a::{zero,plus,times}) ndarray \<Rightarrow> 'a ndarray \<Rightarrow> error + 'a ndarray" where
  "np_dot x y =
     (if snd (shape x) \<noteq> fst (shape y) then Inl ValueError
      else Inr \<lparr>shape = (fst (shape x), snd (shape y)), dtype = dtype x, device = Host,
                data = matmul_data x y\<rparr>)"

text \<open>
  \<^verbatim>\<open>tf.matmul(x, y)\<close> on eager tensors: the matrix product, a new tensor on the
  device of its operands; \<^verbatim>\<open>InvalidArgumentError\<close> when the inner dimensions or the
  dtypes differ.
\<close>

definition tf_matmul :: "('a::{zero,plus,times}) ndarray \<Rightarrow> 'a ndarray \<Rightarrow> error + 'a ndarray" where
  "tf_matmul x y =
     (if snd (shape x) \<noteq> fst (shape y) \<or> dtype x \<noteq> dtype y then Inl InvalidArgumentError
      else Inr \<lparr>shape = (fst (shape x), snd (shape y)), dtype = dtype x, device = device x,
                data = matmul_data x y\<rparr>)"

text \<open>
  \<^verbatim>\<open>tf.matmul\<close> on the symbolic tensors of a trace: a node of the graph together with
  its inferred shape and dtype; shape inference raises \<^verbatim>\<open>ValueError\<close> on operands that
  do not fit.
\<close>

definition sym_matmul ::
  "graph \<times> tensor_spec \<Rightarrow> graph \<times> tensor_spec \<Rightarrow> error + (graph \<times> tensor_spec)" where
  "sym_matmul x y =
     (if snd (fst (snd x)) \<noteq> fst (fst (snd y)) \<or> snd (snd x) \<noteq> snd (snd y)
      then Inl ValueError
      else Inr (MatMul (fst x) (fst y),
                ((fst (fst (snd x)), snd (fst (snd y))), snd (snd x))))"

fun run_graph :: "graph \<Rightarrow> ('a::{zero,plus,times}) ndarray list \<Rightarrow> error + 'a ndarray" where
  "run_graph (Placeholder i) args =
     (if i < length args then Inr (args ! i) else Inl InvalidArgumentError)"
| "run_graph (MatMul g h) args =
     (case run_graph g args of
        Inl e \<Rightarrow> Inl e
      | Inr x \<Rightarrow> (case run_graph h args of Inl e \<Rightarrow> Inl e | Inr y \<Rightarrow> tf_matmul x y))"

definition spec_of :: "'a ndarray \<Rightarrow> tensor_spec" where
  "spec_of m = (shape m, dtype m)"

section \<open>The workers\<close>

text \<open>
  A worker is one call of \<^verbatim>\<open>cpu_stress\<close> or \<^verbatim>\<open>gpu_stress\<close> on a thread of its
  own. Its frame holds the line it is at, its local variables (unbound until assigned)
  and three observations that no line reads: the clock when its thread was started, the
  clock when its second matrix had been allocated, and the clock values its loop
  condition has read so far, the latest first.
\<close>

datatype kind = CPU | GPU

datatype wpc =
    L_print | L_alloc_a | L_alloc_b | L_deadline | L_while | L_multiply
  | Returned | Raised error

record frame =
  kind :: kind
  pc :: wpc
  var_a :: "nat option"
  var_b :: "nat option"
  end_time :: "rat option"
  var_result :: "nat option"
  started_at :: rat
  alloc_done_at :: "rat option"
  checks :: "rat list"

definition new_frame :: "kind \<Rightarrow> rat \<Rightarrow> frame" where
  "new_frame k t =
     \<lparr>kind = k, pc = L_print, var_a = None, var_b = None, end_time = None,
      var_result = None, started_at = t, alloc_done_at = None, checks = []\<rparr>"

text \<open>
  The loop condition \<^verbatim>\<open>time.time() < end_time\<close> of lines 17 and 31: the body is
  entered when it holds; otherwise the function falls off its end and returns.
\<close>

definition loop_test :: "frame \<Rightarrow> 'a world \<Rightarrow> frame" where
  "loop_test f w =
     (case end_time f of
        None \<Rightarrow> f\<lparr>pc := Raised UnboundLocalError\<rparr>
      | Some e \<Rightarrow>
          (let now = time_time w
           in if now < e then f\<lparr>checks := now # checks f, pc := L_multiply\<rparr>
              else f\<lparr>checks := now # checks f, pc := Returned\<rparr>))"

text \<open>One line of \<^verbatim>\<open>cpu_stress\<close> (lines 12 to 18), the one the frame is at.\<close>

definition cpu_stress ::
  "config \<Rightarrow> ('a::{zero,plus,times}) env \<Rightarrow> frame \<Rightarrow> 'a world \<Rightarrow> frame \<times> 'a world" where
  "cpu_stress C E f w =
     (case pc f of
        L_print \<Rightarrow> (f\<lparr>pc := L_alloc_a\<rparr>, py_print ''[CPU] Starting CPU load...'' w)
      | L_alloc_a \<Rightarrow>
          (case np_random_rand E (TENSOR_SIZE C) (TENSOR_SIZE C) w of
             Inl e \<Rightarrow> (f\<lparr>pc := Raised e\<rparr>, w)
           | Inr (m, w') \<Rightarrow>
               (case new_object m w' of
                  (p, w'') \<Rightarrow> (f\<lparr>var_a := Some p, pc := L_alloc_b\<rparr>, w'')))
      | L_alloc_b \<Rightarrow>
          (case np_random_rand E (TENSOR_SIZE C) (TENSOR_SIZE C) w of
             Inl e \<Rightarrow> (f\<lparr>pc := Raised e\<rparr>, w)
           | Inr (m, w') \<Rightarrow>
               (case new_object m w' of
                  (p, w'') \<Rightarrow>
                    (f\<lparr>var_b := Some p, alloc_done_at := Some (clock w), pc := L_deadline\<rparr>,
                     w'')))
      | L_deadline \<Rightarrow>
          (f\<lparr>end_time := Some (time_time w + of_int (TEST_DURATION_SECONDS C)),
             pc := L_while\<rparr>, w)
      | L_while \<Rightarrow> (loop_test f w, w)
      | L_multiply \<Rightarrow>
          (case (var_a f, var_b f) of
             (Some pa, Some pb) \<Rightarrow>
               (case np_dot (heap w ! pa) (heap w ! pb) of
                  Inl e \<Rightarrow> (f\<lparr>pc := Raised e\<rparr>, w)
                | Inr m \<Rightarrow>
                    (case new_object m w of
                       (p, w') \<Rightarrow> (f\<lparr>var_result := Some p, pc := L_while\<rparr>, w')))
           | _ \<Rightarrow> (f\<lparr>pc := Raised UnboundLocalError\<rparr>, w))
      | Returned \<Rightarrow> (f, w)
      | Raised e \<Rightarrow> (f, w))"

text \<open>
  The Python function under the decorator (lines 22 and 23). \<^verbatim>\<open>tf.matmul\<close> works on
  eager tensors and, while \<^verbatim>\<open>tf.function\<close> traces, on symbolic ones; the parameter
  \<open>matmul\<close> is the one in force.
\<close>

definition gpu_stress_step_py :: "('t \<Rightarrow> 't \<Rightarrow> error + 't) \<Rightarrow> 't \<Rightarrow> 't \<Rightarrow> error + 't" where
  "gpu_stress_step_py matmul x y = matmul x y"

text \<open>
  Tracing for a signature: the body runs once on placeholders of the arguments' shapes
  and dtypes, and the graph it records is what is kept.
\<close>

definition trace_step :: "signature \<Rightarrow> error + graph" where
  "trace_step sg =
     (case gpu_stress_step_py sym_matmul (Placeholder 0, fst sg) (Placeholder 1, snd sg) of
        Inl e \<Rightarrow> Inl e
      | Inr r \<Rightarrow> Inr (fst r))"

text \<open>
  The decorated \<^verbatim>\<open>gpu_stress_step\<close> (line 21): a call looks the signature of its
  arguments up in the cache of traces; a signature seen before runs its graph, a new one
  is traced first and its graph added to the cache.
\<close>

definition gpu_stress_step ::
  "('a::{zero,plus,times}) ndarray \<Rightarrow> 'a ndarray \<Rightarrow> 'a world
     \<Rightarrow> (error + 'a ndarray) \<times> 'a world" where
  "gpu_stress_step x y w =
     (let sg = (spec_of x, spec_of y)
      in case map_of (traces w) sg of
           Some g \<Rightarrow> (run_graph g [x, y], w)
         | None \<Rightarrow>
             (case trace_step sg of
                Inl e \<Rightarrow> (Inl e, w)
              | Inr g \<Rightarrow> (run_graph g [x, y], w\<lparr>traces := traces w @ [(sg, g)]\<rparr>)))"

text \<open>One line of \<^verbatim>\<open>gpu_stress\<close> (lines 25 to 32), the one the frame is at.\<close>

definition gpu_stress ::
  "config \<Rightarrow> ('a::{zero,plus,times}) env \<Rightarrow> frame \<Rightarrow> 'a world \<Rightarrow> frame \<times> 'a world" where
  "gpu_stress C E f w =
     (case pc f of
        L_print \<Rightarrow> (f\<lparr>pc := L_alloc_a\<rparr>, py_print ''[GPU] Starting GPU load...'' w)
      | L_alloc_a \<Rightarrow>
          (case tf_random_normal E (tf_device E GPU0) (TENSOR_SIZE C, TENSOR_SIZE C) w of
             Inl e \<Rightarrow> (f\<lparr>pc := Raised e\<rparr>, w)
           | Inr (m, w') \<Rightarrow>
               (case new_object m w' of
                  (p, w'') \<Rightarrow> (f\<lparr>var_a := Some p, pc := L_alloc_b\<rparr>, w'')))
      | L_alloc_b \<Rightarrow>
          (case tf_random_normal E (tf_device E GPU0) (TENSOR_SIZE C, TENSOR_SIZE C) w of
             Inl e \<Rightarrow> (f\<lparr>pc := Raised e\<rparr>, w)
           | Inr (m, w') \<Rightarrow>
               (case new_object m w' of
                  (p, w'') \<Rightarrow>
                    (f\<lparr>var_b := Some p, alloc_done_at := Some (clock w), pc := L_deadline\<rparr>,
                     w'')))
      | L_deadline \<Rightarrow>
          (f\<lparr>end_time := Some (time_time w + of_int (TEST_DURATION_SECONDS C)),
             pc := L_while\<rparr>, w)
      | L_while \<Rightarrow> (loop_test f w, w)
      | L_multiply \<Rightarrow>
          (case (var_a f, var_b f) of
             (Some pa, Some pb) \<Rightarrow>
               (case gpu_stress_step (heap w ! pa) (heap w ! pb) w of
                  (Inl e, w') \<Rightarrow> (f\<lparr>pc := Raised e\<rparr>, w')
                | (Inr m, w') \<Rightarrow>
                    (case new_object m w' of
                       (p, w'') \<Rightarrow> (f\<lparr>var_result := Some p, pc := L_while\<rparr>, w'')))
           | _ \<Rightarrow> (f\<lparr>pc := Raised UnboundLocalError\<rparr>, w))
      | Returned \<Rightarrow> (f, w)
      | Raised e \<Rightarrow> (f, w))"

section \<open>The coordinator\<close>

text \<open>
  The process: what the threads share, the table of started threads (a thread's
  identifier is its position in the table), and the line and local variables of
  \<^verbatim>\<open>main\<close>. The counter of \<open>M_spawn_cpu\<close> is the number of passes of the loop of
  line 39 already made, that of \<open>M_join_cpu\<close> the position in \<^verbatim>\<open>cpu_threads\<close> the loop
  of line 49 is at.
\<close>

datatype mpc =
    M_print_start | M_spawn_cpu nat | M_spawn_gpu | M_join_cpu nat | M_join_gpu
  | M_print_done | M_returned

record 'a state =
  world :: "'a world"
  threads :: "frame list"
  main_pc :: mpc
  cpu_threads :: "nat list"
  gpu_thread :: "nat option"

text \<open>
  \<^verbatim>\<open>t = threading.Thread(target=...)\<close> followed by \<^verbatim>\<open>t.start()\<close>: a new thread
  at the first line of its target.
\<close>

definition thread_start :: "kind \<Rightarrow> 'a state \<Rightarrow> nat \<times> 'a state" where
  "thread_start k s =
     (length (threads s),
      s\<lparr>threads := threads s @ [new_frame k (clock (world s))]\<rparr>)"

text \<open>
  A thread has finished when its target has returned or raised; \<^verbatim>\<open>t.join()\<close>
  returns only then.
\<close>

definition is_finished :: "frame \<Rightarrow> bool" where
  "is_finished f = (case pc f of Returned \<Rightarrow> True | Raised e \<Rightarrow> True | _ \<Rightarrow> False)"

definition thread_done :: "'a state \<Rightarrow> nat \<Rightarrow> bool" where
  "thread_done s t = (t < length (threads s) \<and> is_finished (threads s ! t))"

text \<open>
  One line of \<^verbatim>\<open>main\<close> (lines 34 to 53). A \<^verbatim>\<open>join\<close> on a thread that has not
  finished leaves the state as it is: \<^verbatim>\<open>main\<close> is blocked.
\<close>

definition main :: "config \<Rightarrow> 'a state \<Rightarrow> 'a state" where
  "main C s =
     (case main_pc s of
        M_print_start \<Rightarrow>
          s\<lparr>world := py_print ''Starting AI-style CPU/GPU stress test for 2 hours...'' (world s),
            cpu_threads := [], main_pc := M_spawn_cpu 0\<rparr>
      | M_spawn_cpu k \<Rightarrow>
          (if int k < NUM_CPU_THREADS C
           then (case thread_start CPU s of
                   (t, s') \<Rightarrow>
                     s'\<lparr>cpu_threads := cpu_threads s' @ [t], main_pc := M_spawn_cpu (Suc k)\<rparr>)
           else s\<lparr>main_pc := M_spawn_gpu\<rparr>)
      | M_spawn_gpu \<Rightarrow>
          (case thread_start GPU s of
             (t, s') \<Rightarrow> s'\<lparr>gpu_thread := Some t, main_pc := M_join_cpu 0\<rparr>)
      | M_join_cpu k \<Rightarrow>
          (if k < length (cpu_threads s)
           then (if thread_done s (cpu_threads s ! k) then s\<lparr>main_pc := M_join_cpu (Suc k)\<rparr>
                 else s)
           else s\<lparr>main_pc := M_join_gpu\<rparr>)
      | M_join_gpu \<Rightarrow>
          (case gpu_thread s of
             None \<Rightarrow> s
           | Some t \<Rightarrow> (if thread_done s t then s\<lparr>main_pc := M_print_done\<rparr> else s))
      | M_print_done \<Rightarrow>
          s\<lparr>world := py_print ''Load test completed.'' (world s), main_pc := M_returned\<rparr>
      | M_returned \<Rightarrow> s)"

section \<open>Running the process\<close>

text \<open>
  What happens next is the scheduler's choice: time passes, \<^verbatim>\<open>main\<close> executes its
  current line, or a started thread executes its current line. A run is a list of such
  choices, made from the state of a process that has just been started. Each line is one
  step, and time passes between steps only. The clock is taken never to go back: a tick
  by a negative amount leaves it where it is.
\<close>

datatype action = Tick rat | RunMain | RunThread nat

definition run_thread ::
  "config \<Rightarrow> ('a::{zero,plus,times}) env \<Rightarrow> nat \<Rightarrow> 'a state \<Rightarrow> 'a state" where
  "run_thread C E i s =
     (if i < length (threads s)
      then (case (case kind (threads s ! i) of
                    CPU \<Rightarrow> cpu_stress C E (threads s ! i) (world s)
                  | GPU \<Rightarrow> gpu_stress C E (threads s ! i) (world s)) of
              (f', w') \<Rightarrow> s\<lparr>world := w', threads := (threads s)[i := f']\<rparr>)
      else s)"

definition step ::
  "config \<Rightarrow> ('a::{zero,plus,times}) env \<Rightarrow> action \<Rightarrow> 'a state \<Rightarrow> 'a state" where
  "step C E x s =
     (case x of
        Tick d \<Rightarrow> s\<lparr>world := (world s)\<lparr>clock := clock (world s) + max 0 d\<rparr>\<rparr>
      | RunMain \<Rightarrow> main C s
      | RunThread i \<Rightarrow> run_thread C E i s)"

definition exec ::
  "config \<Rightarrow> ('a::{zero,plus,times}) env \<Rightarrow> action list \<Rightarrow> 'a state \<Rightarrow> 'a state" where
  "exec C E sched s = foldl (\<lambda>s x. step C E x s) s sched"

definition init :: "rat \<Rightarrow> 'a state" where
  "init t =
     \<lparr>world = \<lparr>clock = t, stdout = [], heap = [], drawn = 0, traces = []\<rparr>,
      threads = [], main_pc = M_print_start, cpu_threads = [], gpu_thread = None\<rparr>"

definition run ::
  "config \<Rightarrow> ('a::{zero,plus,times}) env \<Rightarrow> rat \<Rightarrow> action list \<Rightarrow> 'a state" where
  "run C E t sched = exec C E sched (init t)"

section \<open>The exit of the process\<close>

text \<open>
  The process exits when \<^verbatim>\<open>main\<close> has returned, with status 0: \<^verbatim>\<open>main\<close> calls no
  \<^verbatim>\<open>sys.exit\<close>, and an exception in a worker ends only the thread of that worker.
\<close>

definition exit_status :: "'a state \<Rightarrow> int option" where
  "exit_status s = (if main_pc s = M_returned then Some 0 else None)"

section \<open>What holds at every point of a run\<close>

subsection \<open>One step of a worker, whichever its kind\<close>

definition worker_step ::
  "config \<Rightarrow> ('a::{zero,plus,times}) env \<Rightarrow> frame \<Rightarrow> 'a world \<Rightarrow> frame \<times> 'a world" where
  "worker_step C E f w =
     (case kind f of CPU \<Rightarrow> cpu_stress C E f w | GPU \<Rightarrow> gpu_stress C E f w)"

text \<open>
  What the two kinds of worker differ in: the dtype of their matrices and the error of
  their allocation call. The other constants name the settings in the types the
  statements need and the objects a step allocates.
\<close>

definition kind_dtype :: "kind \<Rightarrow> dtype" where
  "kind_dtype k = (case k of CPU \<Rightarrow> Float64 | GPU \<Rightarrow> Float32)"

definition alloc_error :: "kind \<Rightarrow> error" where
  "alloc_error k = (case k of CPU \<Rightarrow> ValueError | GPU \<Rightarrow> InvalidArgumentError)"

definition side :: "config \<Rightarrow> nat" where
  "side C = nat (TENSOR_SIZE C)"

definition duration :: "config \<Rightarrow> rat" where
  "duration C = of_int (TEST_DURATION_SECONDS C)"

definition random_matrix :: "config \<Rightarrow> 'a env \<Rightarrow> kind \<Rightarrow> 'a world \<Rightarrow> 'a ndarray" where
  "random_matrix C E k w =
     \<lparr>shape = (side C, side C), dtype = kind_dtype k,
      device = (case k of CPU \<Rightarrow> Host | GPU \<Rightarrow> tf_device E GPU0),
      data = map (entropy E) [drawn w ..< drawn w + side C * side C]\<rparr>"

definition with_matrix :: "config \<Rightarrow> 'a env \<Rightarrow> kind \<Rightarrow> 'a world \<Rightarrow> 'a world" where
  "with_matrix C E k w =
     w\<lparr>drawn := drawn w + side C * side C, heap := heap w @ [random_matrix C E k w]\<rparr>"

definition cache_entry :: "config \<Rightarrow> signature \<times> graph" where
  "cache_entry C =
     ((((side C, side C), Float32), ((side C, side C), Float32)),
      MatMul (Placeholder 0) (Placeholder 1))"

definition product_matrix :: "kind \<Rightarrow> ('a::{zero,plus,times}) ndarray \<Rightarrow> 'a ndarray \<Rightarrow> 'a ndarray" where
  "product_matrix k x y =
     \<lparr>shape = (fst (shape x), snd (shape y)), dtype = dtype x,
      device = (case k of CPU \<Rightarrow> Host | GPU \<Rightarrow> device x), data = matmul_data x y\<rparr>"

definition multiplied ::
  "config \<Rightarrow> kind \<Rightarrow> nat \<Rightarrow> nat \<Rightarrow> ('a::{zero,plus,times}) world \<Rightarrow> 'a world" where
  "multiplied C k pa pb w =
     (case k of CPU \<Rightarrow> w | GPU \<Rightarrow> w\<lparr>traces := [cache_entry C]\<rparr>)
       \<lparr>heap := heap w @ [product_matrix k (heap w ! pa) (heap w ! pb)]\<rparr>"

subsection \<open>The frame of a worker\<close>

text \<open>
  How far a worker has got decides which of its variables are bound: \<open>stage\<close> orders
  the lines, \<open>iterations\<close> counts the passes through the loop that are complete.
  \<open>vars_ok\<close> says what each bound variable points to, \<open>timing_ok\<close> how the recorded
  clock values relate to the deadline and to the clock. The cache of traces is empty or
  holds the one trace of the signature of the GPU worker's matrices.
\<close>

definition square_at :: "config \<Rightarrow> 'a world \<Rightarrow> kind \<Rightarrow> nat option \<Rightarrow> bool" where
  "square_at C w k r =
     (case r of
        None \<Rightarrow> False
      | Some p \<Rightarrow> p < length (heap w) \<and> shape (heap w ! p) = (side C, side C)
                   \<and> dtype (heap w ! p) = kind_dtype k)"

definition stage :: "wpc \<Rightarrow> nat" where
  "stage l =
     (case l of
        L_print \<Rightarrow> 0 | L_alloc_a \<Rightarrow> 1 | L_alloc_b \<Rightarrow> 2 | L_deadline \<Rightarrow> 3
      | L_while \<Rightarrow> 4 | L_multiply \<Rightarrow> 4 | Returned \<Rightarrow> 4 | Raised e \<Rightarrow> 1)"

definition iterations :: "frame \<Rightarrow> nat" where
  "iterations f = (case pc f of L_while \<Rightarrow> length (checks f) | _ \<Rightarrow> length (checks f) - 1)"

definition vars_ok :: "config \<Rightarrow> 'a world \<Rightarrow> frame \<Rightarrow> bool" where
  "vars_ok C w f =
     ((\<forall>e. pc f = Raised e \<longrightarrow> TENSOR_SIZE C < 0 \<and> e = alloc_error (kind f))
      \<and> (2 \<le> stage (pc f) \<longrightarrow> 0 \<le> TENSOR_SIZE C)
      \<and> (if 2 \<le> stage (pc f) then square_at C w (kind f) (var_a f) else var_a f = None)
      \<and> (if 3 \<le> stage (pc f) then square_at C w (kind f) (var_b f) else var_b f = None)
      \<and> (if 4 \<le> stage (pc f) \<and> iterations f \<noteq> 0
          then square_at C w (kind f) (var_result f) else var_result f = None)
      \<and> (stage (pc f) < 4 \<longrightarrow> checks f = [])
      \<and> (pc f = L_multiply \<or> pc f = Returned \<longrightarrow> checks f \<noteq> []))"

definition loop_ok :: "frame \<Rightarrow> rat \<Rightarrow> rat \<Rightarrow> bool" where
  "loop_ok f e d =
     (case checks f of
        [] \<Rightarrow> True
      | c # cs \<Rightarrow>
          e - d \<le> c
          \<and> (if pc f = Returned
              then e \<le> c \<and> (case cs of [] \<Rightarrow> True | c' # _ \<Rightarrow> c' < e \<and> e - d \<le> c')
              else c < e))"

definition timing_ok :: "config \<Rightarrow> 'a world \<Rightarrow> frame \<Rightarrow> bool" where
  "timing_ok C w f =
     (started_at f \<le> clock w
      \<and> (if 3 \<le> stage (pc f)
          then (\<exists>t. alloc_done_at f = Some t \<and> started_at f \<le> t \<and> t \<le> clock w)
          else alloc_done_at f = None)
      \<and> (if 4 \<le> stage (pc f)
          then (\<exists>e t. end_time f = Some e \<and> alloc_done_at f = Some t
                  \<and> t + duration C \<le> e \<and> e - duration C \<le> clock w
                  \<and> loop_ok f e (duration C))
          else end_time f = None))"

definition frame_ok :: "config \<Rightarrow> 'a world \<Rightarrow> frame \<Rightarrow> bool" where
  "frame_ok C w f = (vars_ok C w f \<and> timing_ok C w f)"

definition traces_ok :: "config \<Rightarrow> 'a world \<Rightarrow> bool" where
  "traces_ok C w =
     (traces w = []
      \<or> traces w = [((((side C, side C), Float32), ((side C, side C), Float32)),
                     MatMul (Placeholder 0) (Placeholder 1))])"

definition frames_ok :: "config \<Rightarrow> 'a state \<Rightarrow> bool" where
  "frames_ok C s =
     (traces_ok C (world s) \<and> (\<forall>f\<in>set (threads s). frame_ok C (world s) f))"

definition step_post :: "config \<Rightarrow> 'a world \<Rightarrow> frame \<Rightarrow> 'a world \<Rightarrow> frame \<Rightarrow> bool" where
  "step_post C w f w' f' =
     (frame_ok C w' f' \<and> traces_ok C w' \<and> clock w' = clock w
      \<and> (\<exists>ys. heap w' = heap w @ ys) \<and> kind f' = kind f \<and> started_at f' = started_at f)"

subsection \<open>Who holds which matrix\<close>

definition owns :: "frame \<Rightarrow> nat \<Rightarrow> bool" where
  "owns f p = (var_a f = Some p \<or> var_b f = Some p)"

definition drawn_matrix :: "config \<Rightarrow> 'a env \<Rightarrow> 'a ndarray \<Rightarrow> bool" where
  "drawn_matrix C E m = (\<exists>n. data m = map (entropy E) [n ..< n + side C * side C])"

definition binds :: "config \<Rightarrow> 'a env \<Rightarrow> 'a world \<Rightarrow> frame \<Rightarrow> 'a world \<Rightarrow> frame \<Rightarrow> bool" where
  "binds C E w f w' f' =
     ((var_a f' = var_a f
       \<or> var_a f = None \<and> var_a f' = Some (length (heap w))
          \<and> heap w' = heap w @ [random_matrix C E (kind f) w])
      \<and> (var_b f' = var_b f
          \<or> var_b f = None \<and> var_b f' = Some (length (heap w))
             \<and> heap w' = heap w @ [random_matrix C E (kind f) w]))"

definition heap_ok :: "config \<Rightarrow> 'a env \<Rightarrow> 'a state \<Rightarrow> bool" where
  "heap_ok C E s =
     ((\<forall>f\<in>set (threads s). \<forall>p. owns f p \<longrightarrow>
          p < length (heap (world s)) \<and> drawn_matrix C E (heap (world s) ! p))
      \<and> (\<forall>f\<in>set (threads s). \<forall>p. var_a f = Some p \<longrightarrow> var_b f \<noteq> Some p)
      \<and> (\<forall>i<length (threads s). \<forall>j<length (threads s). \<forall>p.
            owns (threads s ! i) p \<and> owns (threads s ! j) p \<longrightarrow> i = j))"

definition traced_ok :: "'a state \<Rightarrow> bool" where
  "traced_ok s =
     (\<forall>f\<in>set (threads s). kind f = GPU \<and> var_result f \<noteq> None \<longrightarrow> traces (world s) \<noteq> [])"

subsection \<open>The coordinator and standard output\<close>

definition launched :: "config \<Rightarrow> 'a state \<Rightarrow> bool" where
  "launched C s =
     (length (threads s) = nat (NUM_CPU_THREADS C) + 1
      \<and> map kind (threads s) = replicate (nat (NUM_CPU_THREADS C)) CPU @ [GPU]
      \<and> cpu_threads s = [0 ..< nat (NUM_CPU_THREADS C)]
      \<and> gpu_thread s = Some (nat (NUM_CPU_THREADS C)))"

definition main_ok :: "config \<Rightarrow> 'a state \<Rightarrow> bool" where
  "main_ok C s =
     (case main_pc s of
        M_print_start \<Rightarrow> threads s = []
      | M_spawn_cpu k \<Rightarrow>
          k \<le> nat (NUM_CPU_THREADS C) \<and> length (threads s) = k
          \<and> map kind (threads s) = replicate k CPU \<and> cpu_threads s = [0 ..< k]
      | M_spawn_gpu \<Rightarrow>
          length (threads s) = nat (NUM_CPU_THREADS C)
          \<and> map kind (threads s) = replicate (nat (NUM_CPU_THREADS C)) CPU
          \<and> cpu_threads s = [0 ..< nat (NUM_CPU_THREADS C)]
      | M_join_cpu k \<Rightarrow>
          launched C s \<and> k \<le> nat (NUM_CPU_THREADS C)
          \<and> (\<forall>j<k. is_finished (threads s ! j))
      | M_join_gpu \<Rightarrow>
          launched C s \<and> (\<forall>j<nat (NUM_CPU_THREADS C). is_finished (threads s ! j))
      | M_print_done \<Rightarrow> launched C s \<and> (\<forall>f\<in>set (threads s). is_finished f)
      | M_returned \<Rightarrow> launched C s \<and> (\<forall>f\<in>set (threads s). is_finished f))"

definition start_msg :: string where
  "start_msg = ''Starting AI-style CPU/GPU stress test for 2 hours...''"

definition worker_msg :: "kind \<Rightarrow> string" where
  "worker_msg k =
     (case k of CPU \<Rightarrow> ''[CPU] Starting CPU load...'' | GPU \<Rightarrow> ''[GPU] Starting GPU load...'')"

definition done_msg :: string where
  "done_msg = ''Load test completed.''"

definition announced :: "kind \<Rightarrow> frame list \<Rightarrow> nat" where
  "announced k fs = length (filter (\<lambda>f. kind f = k \<and> pc f \<noteq> L_print) fs)"

definition out_ok :: "'a state \<Rightarrow> bool" where
  "out_ok s =
     (count_list (stdout (world s)) (worker_msg CPU) = announced CPU (threads s)
      \<and> count_list (stdout (world s)) (worker_msg GPU) = announced GPU (threads s)
      \<and> count_list (stdout (world s)) done_msg = (if main_pc s = M_returned then 1 else 0)
      \<and> length (stdout (world s)) =
          (if main_pc s = M_print_start then 0 else 1)
          + announced CPU (threads s) + announced GPU (threads s)
          + (if main_pc s = M_returned then 1 else 0)
      \<and> (main_pc s \<noteq> M_print_start \<longrightarrow>
            stdout (world s) \<noteq> [] \<and> hd (stdout (world s)) = start_msg)
      \<and> (main_pc s = M_returned \<longrightarrow> last (stdout (world s)) = done_msg))"

subsection \<open>Lines a worker still has to execute\<close>

text \<open>
  \<open>remaining\<close> counts the steps to the return of a worker whose loop makes no pass,
  \<open>setup_left\<close> the steps to its loop.
\<close>

definition remaining :: "wpc \<Rightarrow> nat" where
  "remaining l =
     (case l of
        L_print \<Rightarrow> 5 | L_alloc_a \<Rightarrow> 4 | L_alloc_b \<Rightarrow> 3 | L_deadline \<Rightarrow> 2
      | L_while \<Rightarrow> 1 | L_multiply \<Rightarrow> 1 | Returned \<Rightarrow> 0 | Raised e \<Rightarrow> 0)"

definition setup_left :: "wpc \<Rightarrow> nat" where
  "setup_left l =
     (case l of
        L_print \<Rightarrow> 4 | L_alloc_a \<Rightarrow> 3 | L_alloc_b \<Rightarrow> 2 | L_deadline \<Rightarrow> 1
      | L_while \<Rightarrow> 0 | L_multiply \<Rightarrow> 0 | Returned \<Rightarrow> 0 | Raised e \<Rightarrow> 0)"

section \<open>Concrete settings and schedules\<close>

text \<open>
  A process with one CPU worker and the GPU worker, matrices of side 2 and D = 4, run to
  its end: the CPU worker is started at 0, has its matrices at 2 and makes two passes of
  3 each; then the GPU worker runs, then \<^verbatim>\<open>main\<close> joins both. Further settings with
  D = 0, with side 0 and with side -1, and shorter schedules.
\<close>

definition demo_config :: config where
  "demo_config = \<lparr>TEST_DURATION_SECONDS = 4, TENSOR_SIZE = 2, NUM_CPU_THREADS = 1\<rparr>"

definition demo_env :: "int env" where
  "demo_env = \<lparr>entropy = (\<lambda>n. int n + 1), gpu_available = False\<rparr>"

definition demo_sched :: "action list" where
  "demo_sched =
     [RunMain, RunMain, RunMain, RunMain,
      RunThread 0, Tick 1, RunThread 0, Tick 1, RunThread 0, RunThread 0,
      RunThread 0, RunThread 0, Tick 3, RunThread 0, RunThread 0, Tick 3, RunThread 0,
      RunThread 1, RunThread 1, RunThread 1, RunThread 1, RunThread 1, RunThread 1,
      Tick 5, RunThread 1, RunMain, RunMain, RunMain, RunMain, RunMain]"

definition demo_final :: "int state" where
  "demo_final = run demo_config demo_env 0 demo_sched"

definition demo_a :: "int ndarray" where
  "demo_a = \<lparr>shape = (2, 2), dtype = Float32, device = Host, data = [1, 2, 3, 4]\<rparr>"

definition demo_b :: "int ndarray" where
  "demo_b = \<lparr>shape = (2, 2), dtype = Float32, device = Host, data = [5, 6, 7, 8]\<rparr>"

definition idle_config :: config where
  "idle_config = \<lparr>TEST_DURATION_SECONDS = 0, TENSOR_SIZE = 2, NUM_CPU_THREADS = 1\<rparr>"

definition idle_sched :: "action list" where
  "idle_sched =
     [RunMain, RunMain, Tick 1, RunThread 0, RunThread 0, Tick 1, RunThread 0, RunThread 0,
      RunThread 0]"

definition empty_config :: config where
  "empty_config = \<lparr>TEST_DURATION_SECONDS = 4, TENSOR_SIZE = 0, NUM_CPU_THREADS = 1\<rparr>"

definition negative_config :: config where
  "negative_config = \<lparr>TEST_DURATION_SECONDS = 4, TENSOR_SIZE = - 1, NUM_CPU_THREADS = 1\<rparr>"

definition short_sched :: "action list" where
  "short_sched =
     [RunMain, RunMain, RunThread 0, RunThread 0, RunThread 0, RunThread 0, RunThread 0,
      RunThread 0]"

definition alloc_sched :: "action list" where
  "alloc_sched =
     [RunMain, RunMain, RunMain, RunMain, RunThread 0, RunThread 0, RunThread 0,
      RunThread 1, RunThread 1, RunThread 1]"

definition loop_sched :: "action list" where
  "loop_sched =
     [RunThread 0, RunThread 0, RunThread 0, Tick 1, RunThread 1, RunThread 1, RunThread 1,
      RunThread 0, RunThread 0]"

section \<open>Proofs of the invariants\<close>

lemma square_at_mono:
  "square_at C w k r \<Longrightarrow> heap w' = heap w @ ys \<Longrightarrow> square_at C w' k r"
  by (auto simp: square_at_def nth_append split: option.splits)

lemma vars_ok_mono:
  assumes "vars_ok C w f" "heap w' = heap w @ ys"
  shows "vars_ok C w' f"
  using assms(1) square_at_mono[OF _ assms(2)] unfolding vars_ok_def
  by (auto split: if_splits)

lemma timing_ok_mono:
  assumes "timing_ok C w f" "clock w \<le> clock w'"
  shows "timing_ok C w' f"
  using assms unfolding timing_ok_def
  by (auto split: if_splits intro: order_trans)

lemma frame_ok_mono:
  "frame_ok C w f \<Longrightarrow> clock w \<le> clock w' \<Longrightarrow> heap w' = heap w @ ys \<Longrightarrow> frame_ok C w' f"
  unfolding frame_ok_def using vars_ok_mono timing_ok_mono by blast

subsection \<open>What each line does\<close>

lemma loop_test_cases:
  assumes "end_time f = Some e"
  shows "loop_test f w = (if clock w < e then f\<lparr>checks := clock w # checks f, pc := L_multiply\<rparr>
                          else f\<lparr>checks := clock w # checks f, pc := Returned\<rparr>)"
  using assms by (simp add: loop_test_def time_time_def)

lemma step_print:
  "pc f = L_print \<Longrightarrow>
   worker_step C E f w =
     (f\<lparr>pc := L_alloc_a\<rparr>,
      py_print (case kind f of CPU \<Rightarrow> ''[CPU] Starting CPU load...''
                | GPU \<Rightarrow> ''[GPU] Starting GPU load...'') w)"
  by (simp add: worker_step_def cpu_stress_def gpu_stress_def split: kind.splits)

lemma step_alloc_a:
  "pc f = L_alloc_a \<Longrightarrow>
   worker_step C E f w =
     (if TENSOR_SIZE C < 0 then (f\<lparr>pc := Raised (alloc_error (kind f))\<rparr>, w)
      else (f\<lparr>var_a := Some (length (heap w)), pc := L_alloc_b\<rparr>,
            with_matrix C E (kind f) w))"
  by (simp add: worker_step_def cpu_stress_def gpu_stress_def np_random_rand_def
      tf_random_normal_def draw_def new_object_def alloc_error_def with_matrix_def
      random_matrix_def side_def kind_dtype_def split: kind.splits)

lemma step_alloc_b:
  "pc f = L_alloc_b \<Longrightarrow>
   worker_step C E f w =
     (if TENSOR_SIZE C < 0 then (f\<lparr>pc := Raised (alloc_error (kind f))\<rparr>, w)
      else (f\<lparr>var_b := Some (length (heap w)), alloc_done_at := Some (clock w),
              pc := L_deadline\<rparr>,
            with_matrix C E (kind f) w))"
  by (simp add: worker_step_def cpu_stress_def gpu_stress_def np_random_rand_def
      tf_random_normal_def draw_def new_object_def alloc_error_def with_matrix_def
      random_matrix_def side_def kind_dtype_def split: kind.splits)

lemma step_deadline:
  "pc f = L_deadline \<Longrightarrow>
   worker_step C E f w = (f\<lparr>end_time := Some (clock w + duration C), pc := L_while\<rparr>, w)"
  by (simp add: worker_step_def cpu_stress_def gpu_stress_def time_time_def duration_def
      split: kind.splits)

lemma step_while:
  "pc f = L_while \<Longrightarrow> end_time f = Some e \<Longrightarrow>
   worker_step C E f w =
     (f\<lparr>checks := clock w # checks f, pc := (if clock w < e then L_multiply else Returned)\<rparr>, w)"
  by (simp add: worker_step_def cpu_stress_def gpu_stress_def loop_test_cases
      split: kind.splits)

lemma step_finished:
  "is_finished f \<Longrightarrow> worker_step C E f w = (f, w)"
  by (auto simp: worker_step_def cpu_stress_def gpu_stress_def is_finished_def
      split: kind.splits wpc.splits)

lemma traces_ok_alt: "traces_ok C w = (traces w = [] \<or> traces w = [cache_entry C])"
  by (simp add: traces_ok_def cache_entry_def)

lemma trace_step_compatible:
  "snd (fst (fst sg)) = fst (fst (snd sg)) \<Longrightarrow> snd (fst sg) = snd (snd sg) \<Longrightarrow>
   trace_step sg = Inr (MatMul (Placeholder 0) (Placeholder 1))"
  by (simp add: trace_step_def gpu_stress_step_py_def sym_matmul_def)

lemma gpu_stress_step_result:
  assumes "traces_ok C w" "snd (shape x) = fst (shape y)" "dtype x = dtype y"
  shows "fst (gpu_stress_step x y w) = tf_matmul x y"
proof (cases "map_of (traces w) (spec_of x, spec_of y)")
  case None
  then show ?thesis
    using assms(2,3)
    by (simp add: gpu_stress_step_def trace_step_compatible spec_of_def)
next
  case (Some g)
  then have "g = MatMul (Placeholder 0) (Placeholder 1)"
    using assms(1) by (auto simp: traces_ok_alt cache_entry_def split: if_splits)
  then show ?thesis using Some by (simp add: gpu_stress_step_def)
qed

lemma gpu_stress_step_square:
  assumes "traces_ok C w" "shape x = (side C, side C)" "shape y = (side C, side C)"
    "dtype x = Float32" "dtype y = Float32"
  shows "gpu_stress_step x y w = (Inr (product_matrix GPU x y), w\<lparr>traces := [cache_entry C]\<rparr>)"
proof (cases "traces w = []")
  case True
  then show ?thesis using assms(2-5)
    by (simp add: gpu_stress_step_def trace_step_compatible spec_of_def cache_entry_def
        tf_matmul_def product_matrix_def)
next
  case False
  then have t: "traces w = [cache_entry C]" using assms(1) by (simp add: traces_ok_alt)
  then have "w\<lparr>traces := [cache_entry C]\<rparr> = w" by simp
  then show ?thesis using assms(2-5) t
    by (simp add: gpu_stress_step_def spec_of_def cache_entry_def tf_matmul_def product_matrix_def)
qed

lemma step_multiply:
  assumes "pc f = L_multiply" "var_a f = Some pa" "var_b f = Some pb"
    "square_at C w (kind f) (Some pa)" "square_at C w (kind f) (Some pb)" "traces_ok C w"
  shows "worker_step C E f w =
           (f\<lparr>var_result := Some (length (heap w)), pc := L_while\<rparr>,
            multiplied C (kind f) pa pb w)"
proof (cases "kind f")
  case CPU
  then show ?thesis using assms
    by (simp add: worker_step_def cpu_stress_def np_dot_def square_at_def new_object_def
        multiplied_def product_matrix_def)
next
  case GPU
  then have "gpu_stress_step (heap w ! pa) (heap w ! pb) w
             = (Inr (product_matrix GPU (heap w ! pa) (heap w ! pb)), w\<lparr>traces := [cache_entry C]\<rparr>)"
    using assms by (intro gpu_stress_step_square) (simp_all add: square_at_def kind_dtype_def)
  then show ?thesis using assms GPU
    by (simp add: worker_step_def gpu_stress_def new_object_def multiplied_def)
qed

subsection \<open>The frame invariant is kept\<close>

lemma worker_step_preserves:
  assumes "frame_ok C w f" "traces_ok C w" "worker_step C E f w = (f', w')"
  shows "step_post C w f w' f'"
proof (cases "pc f")
  case L_print
  have f': "f' = f\<lparr>pc := L_alloc_a\<rparr>" and hp: "heap w' = heap w" and ck: "clock w' = clock w"
    and tr: "traces w' = traces w"
    using assms(3) by (auto simp: step_print[OF L_print] py_print_def)
  have v: "vars_ok C w' f'"
    using assms(1) L_print by (simp add: f' frame_ok_def vars_ok_def stage_def iterations_def)
  have t: "timing_ok C w' f'"
    using assms(1) L_print ck by (simp add: f' frame_ok_def timing_ok_def stage_def)
  show ?thesis
    using v t tr hp ck assms(2) by (simp add: step_post_def frame_ok_def f' traces_ok_def)
next
  case L_alloc_a
  show ?thesis
  proof (cases "TENSOR_SIZE C < 0")
    case True
    have f': "f' = f\<lparr>pc := Raised (alloc_error (kind f))\<rparr>" and w': "w' = w"
      using assms(3) True by (auto simp: step_alloc_a[OF L_alloc_a])
    have v: "vars_ok C w' f'"
      using assms(1) L_alloc_a True
      by (simp add: f' w' frame_ok_def vars_ok_def stage_def iterations_def)
    have t: "timing_ok C w' f'"
      using assms(1) L_alloc_a by (simp add: f' w' frame_ok_def timing_ok_def stage_def)
    show ?thesis using v t assms(2) by (simp add: step_post_def frame_ok_def f' w')
  next
    case False
    have f': "f' = f\<lparr>var_a := Some (length (heap w)), pc := L_alloc_b\<rparr>"
      and w': "w' = with_matrix C E (kind f) w"
      using assms(3) False by (auto simp: step_alloc_a[OF L_alloc_a])
    have hp: "heap w' = heap w @ [random_matrix C E (kind f) w]" and ck: "clock w' = clock w"
      and tr: "traces w' = traces w"
      by (simp_all add: w' with_matrix_def)
    have sq: "square_at C w' (kind f) (Some (length (heap w)))"
      by (simp add: square_at_def hp random_matrix_def)
    have v: "vars_ok C w' f'"
      using assms(1) L_alloc_a False sq
      by (simp add: f' frame_ok_def vars_ok_def stage_def iterations_def)
    have t: "timing_ok C w' f'"
      using assms(1) L_alloc_a ck by (simp add: f' frame_ok_def timing_ok_def stage_def)
    show ?thesis
      using v t tr hp ck assms(2) by (simp add: step_post_def frame_ok_def f' traces_ok_def)
  qed
next
  case L_alloc_b
  have nn: "\<not> TENSOR_SIZE C < 0"
    using assms(1) L_alloc_b by (simp add: frame_ok_def vars_ok_def stage_def)
  have f': "f' = f\<lparr>var_b := Some (length (heap w)), alloc_done_at := Some (clock w),
                    pc := L_deadline\<rparr>"
    and w': "w' = with_matrix C E (kind f) w"
    using assms(3) nn by (auto simp: step_alloc_b[OF L_alloc_b])
  have hp: "heap w' = heap w @ [random_matrix C E (kind f) w]" and ck: "clock w' = clock w"
    and tr: "traces w' = traces w"
    by (simp_all add: w' with_matrix_def)
  have sq: "square_at C w' (kind f) (Some (length (heap w)))"
    by (simp add: square_at_def hp random_matrix_def)
  have sa: "square_at C w' (kind f) (var_a f)"
    using assms(1) L_alloc_b square_at_mono[OF _ hp]
    by (simp add: frame_ok_def vars_ok_def stage_def)
  have v: "vars_ok C w' f'"
    using assms(1) L_alloc_b sq sa
    by (simp add: f' frame_ok_def vars_ok_def stage_def iterations_def)
  have t: "timing_ok C w' f'"
    using assms(1) L_alloc_b ck by (simp add: f' frame_ok_def timing_ok_def stage_def)
  show ?thesis
    using v t tr hp ck assms(2) by (simp add: step_post_def frame_ok_def f' traces_ok_def)
next
  case L_deadline
  have f': "f' = f\<lparr>end_time := Some (clock w + duration C), pc := L_while\<rparr>" and w': "w' = w"
    using assms(3) by (auto simp: step_deadline[OF L_deadline])
  have v: "vars_ok C w' f'"
    using assms(1) L_deadline
    by (simp add: f' w' frame_ok_def vars_ok_def stage_def iterations_def)
  have t: "timing_ok C w' f'"
    using assms(1) L_deadline
    by (auto simp: f' w' frame_ok_def vars_ok_def timing_ok_def stage_def loop_ok_def)
  show ?thesis using v t assms(2) by (simp add: step_post_def frame_ok_def f' w')
next
  case L_while
  then obtain e where e: "end_time f = Some e"
    using assms(1) by (auto simp: frame_ok_def timing_ok_def stage_def)
  have w': "w' = w"
    and f': "f' = f\<lparr>checks := clock w # checks f,
                     pc := (if clock w < e then L_multiply else Returned)\<rparr>"
    using assms(3) by (auto simp: step_while[OF L_while e])
  have v: "vars_ok C w' f'"
    using assms(1) L_while
    by (cases "clock w < e") (auto simp: f' w' frame_ok_def vars_ok_def stage_def iterations_def)
  have t: "timing_ok C w' f'"
    using assms(1) L_while e
    by (cases "clock w < e")
      (auto simp: f' w' frame_ok_def timing_ok_def stage_def loop_ok_def split: list.splits)
  show ?thesis using v t assms(2) by (simp add: step_post_def frame_ok_def f' w')
next
  case L_multiply
  from assms(1) L_multiply obtain pa pb where
    ab: "var_a f = Some pa" "var_b f = Some pb"
      "square_at C w (kind f) (Some pa)" "square_at C w (kind f) (Some pb)"
    by (auto simp: frame_ok_def vars_ok_def stage_def square_at_def split: option.splits)
  have st: "worker_step C E f w =
              (f\<lparr>var_result := Some (length (heap w)), pc := L_while\<rparr>,
               multiplied C (kind f) pa pb w)"
    by (rule step_multiply[OF L_multiply ab assms(2)])
  have f': "f' = f\<lparr>var_result := Some (length (heap w)), pc := L_while\<rparr>"
    and w': "w' = multiplied C (kind f) pa pb w"
    using st assms(3) by simp_all
  have hp: "heap w' = heap w @ [product_matrix (kind f) (heap w ! pa) (heap w ! pb)]"
    and ck: "clock w' = clock w"
    by (simp_all add: w' multiplied_def split: kind.splits)
  have tr: "traces_ok C w'"
    using assms(2) by (auto simp: w' multiplied_def traces_ok_alt split: kind.splits)
  have sq: "square_at C w' (kind f) (Some (length (heap w)))"
    using ab(3,4) by (simp add: square_at_def hp product_matrix_def)
  have v: "vars_ok C w' f'"
    using assms(1) L_multiply sq square_at_mono[OF _ hp]
    by (auto simp: f' frame_ok_def vars_ok_def stage_def iterations_def)
  have t: "timing_ok C w' f'"
    using assms(1) L_multiply ck
    by (auto simp: f' frame_ok_def timing_ok_def stage_def loop_ok_def split: list.splits)
  show ?thesis
    using v t tr hp ck by (simp add: step_post_def frame_ok_def f')
next
  case Returned
  then show ?thesis using assms
    by (auto simp: step_finished is_finished_def step_post_def)
next
  case (Raised e)
  then show ?thesis using assms
    by (auto simp: step_finished is_finished_def step_post_def)
qed

lemma run_thread_alt:
  "run_thread C E i s =
     (if i < length (threads s)
      then s\<lparr>world := snd (worker_step C E (threads s ! i) (world s)),
             threads := (threads s)[i := fst (worker_step C E (threads s ! i) (world s))]\<rparr>
      else s)"
  by (simp add: run_thread_def worker_step_def split: prod.splits kind.splits)

lemma new_frame_ok: "frame_ok C w (new_frame k (clock w))"
  by (simp add: frame_ok_def vars_ok_def timing_ok_def new_frame_def stage_def)

lemma frame_ok_cong:
  assumes "clock w = clock w'" "heap w = heap w'"
  shows "frame_ok C w f = frame_ok C w' f"
proof
  assume "frame_ok C w f"
  then show "frame_ok C w' f"
    by (rule frame_ok_mono[where ys = "[]"]) (simp_all add: assms)
next
  assume "frame_ok C w' f"
  then show "frame_ok C w f"
    by (rule frame_ok_mono[where ys = "[]"]) (simp_all add: assms)
qed

lemma frame_ok_print: "frame_ok C (py_print msg w) f = frame_ok C w f"
  by (rule frame_ok_cong) (simp_all add: py_print_def)

lemma main_world:
  "world (main C s) = world s \<or> (\<exists>msg. world (main C s) = py_print msg (world s))"
  by (auto simp: main_def thread_start_def split: mpc.splits option.splits)

lemma main_threads:
  "threads (main C s) = threads s
   \<or> (\<exists>k. threads (main C s) = threads s @ [new_frame k (clock (world s))])"
  by (auto simp: main_def thread_start_def split: mpc.splits option.splits)

lemma frames_ok_main:
  assumes "frames_ok C s"
  shows "frames_ok C (main C s)"
proof -
  have w: "\<And>f. frame_ok C (world (main C s)) f = frame_ok C (world s) f"
    using main_world[of C s] by (auto simp: frame_ok_print)
  have t: "traces (world (main C s)) = traces (world s)"
    using main_world[of C s] by (auto simp: py_print_def)
  have n: "\<And>k. frame_ok C (world s) (new_frame k (clock (world s)))"
    by (rule new_frame_ok)
  show ?thesis
    using assms main_threads[of C s] n
    by (auto simp: frames_ok_def w traces_ok_def t)
qed

lemma frames_ok_tick:
  assumes "frames_ok C s"
  shows "frames_ok C (s\<lparr>world := (world s)\<lparr>clock := clock (world s) + max 0 d\<rparr>\<rparr>)"
proof -
  have "\<And>f. frame_ok C (world s) f \<Longrightarrow>
          frame_ok C ((world s)\<lparr>clock := clock (world s) + max 0 d\<rparr>) f"
    by (rule frame_ok_mono[where ys = "[]"]) simp_all
  then show ?thesis using assms by (auto simp: frames_ok_def traces_ok_def)
qed

lemma frames_ok_run_thread:
  assumes "frames_ok C s"
  shows "frames_ok C (run_thread C E i s)"
proof (cases "i < length (threads s)")
  case False
  then show ?thesis using assms by (simp add: run_thread_alt)
next
  case True
  obtain f' w' where st: "worker_step C E (threads s ! i) (world s) = (f', w')"
    by (cases "worker_step C E (threads s ! i) (world s)")
  have fi: "frame_ok C (world s) (threads s ! i)"
    using assms True by (simp add: frames_ok_def)
  have post: "step_post C (world s) (threads s ! i) w' f'"
    using worker_step_preserves[OF fi _ st] assms by (simp add: frames_ok_def)
  then obtain ys where hp: "heap w' = heap (world s) @ ys" and ck: "clock (world s) \<le> clock w'"
    by (auto simp: step_post_def)
  have others: "\<And>g. g \<in> set (threads s) \<Longrightarrow> frame_ok C w' g"
    using assms frame_ok_mono[OF _ ck hp] by (simp add: frames_ok_def)
  have "\<And>g. g \<in> set ((threads s)[i := f']) \<Longrightarrow> frame_ok C w' g"
    using others post set_update_subset_insert[of "threads s" i f']
    by (auto simp: step_post_def)
  then show ?thesis
    using True st post by (simp add: run_thread_alt frames_ok_def step_post_def)
qed

lemma frames_ok_step: "frames_ok C s \<Longrightarrow> frames_ok C (step C E x s)"
  by (cases x) (simp_all add: step_def frames_ok_tick frames_ok_main frames_ok_run_thread)

lemma frames_ok_init: "frames_ok C (init t)"
  by (simp add: frames_ok_def init_def traces_ok_def)

lemma run_snoc: "run C E t (sched @ [x]) = step C E x (run C E t sched)"
  by (simp add: run_def exec_def)

lemma run_Nil: "run C E t [] = init t"
  by (simp add: run_def exec_def)

lemma frames_ok_run: "frames_ok C (run C E t sched)"
  by (induction sched rule: rev_induct)
    (simp_all add: run_Nil run_snoc frames_ok_init frames_ok_step)

subsection \<open>Matrices are bound once and to new objects\<close>

lemma worker_step_binds:
  assumes "frame_ok C w f" "traces_ok C w" "worker_step C E f w = (f', w')"
  shows "binds C E w f w' f'"
proof (cases "pc f")
  case L_print
  then show ?thesis using assms(3) by (auto simp: step_print binds_def)
next
  case L_alloc_a
  have "var_a f = None" "var_b f = None"
    using assms(1) L_alloc_a by (simp_all add: frame_ok_def vars_ok_def stage_def)
  then show ?thesis using assms(3) L_alloc_a
    by (auto simp: step_alloc_a binds_def with_matrix_def split: if_splits)
next
  case L_alloc_b
  have "var_b f = None"
    using assms(1) L_alloc_b by (simp_all add: frame_ok_def vars_ok_def stage_def)
  then show ?thesis using assms(3) L_alloc_b
    by (auto simp: step_alloc_b binds_def with_matrix_def split: if_splits)
next
  case L_deadline
  then show ?thesis using assms(3) by (auto simp: step_deadline binds_def)
next
  case L_while
  then obtain e where e: "end_time f = Some e"
    using assms(1) by (auto simp: frame_ok_def timing_ok_def stage_def)
  show ?thesis using assms(3) by (auto simp: step_while[OF L_while e] binds_def)
next
  case L_multiply
  from assms(1) L_multiply obtain pa pb where
    ab: "var_a f = Some pa" "var_b f = Some pb"
      "square_at C w (kind f) (Some pa)" "square_at C w (kind f) (Some pb)"
    by (auto simp: frame_ok_def vars_ok_def stage_def square_at_def split: option.splits)
  show ?thesis
    using assms(3) by (auto simp: step_multiply[OF L_multiply ab assms(2)] binds_def)
next
  case Returned
  then show ?thesis using assms(3) by (auto simp: step_finished is_finished_def binds_def)
next
  case (Raised e)
  then show ?thesis using assms(3) by (auto simp: step_finished is_finished_def binds_def)
qed

lemma frame_ok_owns:
  "frame_ok C w f \<Longrightarrow> owns f p \<Longrightarrow> p < length (heap w)"
  by (auto simp: frame_ok_def vars_ok_def owns_def square_at_def split: if_splits)

lemma drawn_matrix_random: "drawn_matrix C E (random_matrix C E k w)"
  by (auto simp: drawn_matrix_def random_matrix_def)

lemma heap_ok_init: "heap_ok C E (init t)"
  by (simp add: heap_ok_def init_def)

lemma main_heap: "heap (world (main C s)) = heap (world s)"
  using main_world[of C s] by (auto simp: py_print_def)

lemma owns_new_frame: "\<not> owns (new_frame k t) p"
  by (simp add: owns_def new_frame_def)

lemma heap_ok_main:
  assumes "heap_ok C E s"
  shows "heap_ok C E (main C s)"
proof -
  consider "threads (main C s) = threads s"
    | k where "threads (main C s) = threads s @ [new_frame k (clock (world s))]"
    using main_threads[of C s] by blast
  then show ?thesis
  proof cases
    case 1
    then show ?thesis using assms by (simp add: heap_ok_def main_heap)
  next
    case 2
    have nf: "\<And>p. \<not> owns (new_frame k (clock (world s))) p" by (rule owns_new_frame)
    have a: "\<forall>f\<in>set (threads (main C s)). \<forall>p. owns f p \<longrightarrow>
          p < length (heap (world (main C s)))
          \<and> drawn_matrix C E (heap (world (main C s)) ! p)"
      using assms nf by (auto simp: 2 heap_ok_def main_heap)
    have b: "\<forall>f\<in>set (threads (main C s)). \<forall>p. var_a f = Some p \<longrightarrow> var_b f \<noteq> Some p"
      using assms by (auto simp: 2 heap_ok_def new_frame_def)
    have c: "\<forall>i<length (threads (main C s)). \<forall>j<length (threads (main C s)). \<forall>p.
            owns (threads (main C s) ! i) p \<and> owns (threads (main C s) ! j) p \<longrightarrow> i = j"
    proof (intro allI impI)
      fix i j p
      assume i: "i < length (threads (main C s))" and j: "j < length (threads (main C s))"
        and o: "owns (threads (main C s) ! i) p \<and> owns (threads (main C s) ! j) p"
      have "i < length (threads s)"
        using i o nf by (cases "i = length (threads s)") (auto simp: 2 nth_append)
      moreover have "j < length (threads s)"
        using j o nf by (cases "j = length (threads s)") (auto simp: 2 nth_append)
      ultimately have "i < length (threads s)" "j < length (threads s)"
        "owns (threads s ! i) p \<and> owns (threads s ! j) p"
        using o by (simp_all add: 2 nth_append)
      then show "i = j"
        using assms unfolding heap_ok_def by blast
    qed
    show ?thesis unfolding heap_ok_def using a b c by blast
  qed
qed

lemma heap_ok_tick:
  "heap_ok C E s \<Longrightarrow> heap_ok C E (s\<lparr>world := (world s)\<lparr>clock := clock (world s) + max 0 d\<rparr>\<rparr>)"
  by (simp add: heap_ok_def)

lemma heap_ok_run_thread:
  assumes "heap_ok C E s" "frames_ok C s"
  shows "heap_ok C E (run_thread C E i s)"
proof (cases "i < length (threads s)")
  case False
  then show ?thesis using assms by (simp add: run_thread_alt)
next
  case True
  define f where "f = threads s ! i"
  define w where "w = world s"
  obtain f' w' where st: "worker_step C E f w = (f', w')"
    by (cases "worker_step C E f w")
  have fi: "frame_ok C w f" and tr: "traces_ok C w"
    using assms(2) True by (simp_all add: frames_ok_def f_def w_def)
  have post: "step_post C w f w' f'" by (rule worker_step_preserves[OF fi tr st])
  have bd: "binds C E w f w' f'" by (rule worker_step_binds[OF fi tr st])
  obtain ys where hp: "heap w' = heap w @ ys" using post by (auto simp: step_post_def)
  have s': "run_thread C E i s = s\<lparr>world := w', threads := (threads s)[i := f']\<rparr>"
    using True st by (simp add: run_thread_alt f_def w_def)
  have old_lt: "\<And>g p. g \<in> set (threads s) \<Longrightarrow> owns g p \<Longrightarrow> p < length (heap w)"
    using assms(1) by (auto simp: heap_ok_def w_def)
  have old_dm: "\<And>g p. g \<in> set (threads s) \<Longrightarrow> owns g p \<Longrightarrow> drawn_matrix C E (heap w' ! p)"
    using assms(1) hp by (auto simp: heap_ok_def w_def nth_append)
  have fmem: "f \<in> set (threads s)" using True by (simp add: f_def)
  have new: "\<And>p. owns f' p \<Longrightarrow> \<not> owns f p \<Longrightarrow>
               p = length (heap w) \<and> heap w' = heap w @ [random_matrix C E (kind f) w]"
    using bd by (auto simp: binds_def owns_def)
  have f'_lt: "\<And>p. owns f' p \<Longrightarrow> p < length (heap w')"
    using post frame_ok_owns by (auto simp: step_post_def)
  have f'_dm: "\<And>p. owns f' p \<Longrightarrow> drawn_matrix C E (heap w' ! p)"
  proof -
    fix p assume o: "owns f' p"
    show "drawn_matrix C E (heap w' ! p)"
    proof (cases "owns f p")
      case True
      then show ?thesis using old_dm fmem by blast
    next
      case False
      then show ?thesis using new[OF o False] by (simp add: drawn_matrix_random)
    qed
  qed
  have a: "\<forall>g\<in>set ((threads s)[i := f']). \<forall>p. owns g p \<longrightarrow>
             p < length (heap w') \<and> drawn_matrix C E (heap w' ! p)"
  proof (intro ballI allI impI)
    fix g p assume g: "g \<in> set ((threads s)[i := f'])" and o: "owns g p"
    have "g = f' \<or> g \<in> set (threads s)"
      using g set_update_subset_insert[of "threads s" i f'] by auto
    then show "p < length (heap w') \<and> drawn_matrix C E (heap w' ! p)"
    proof
      assume "g = f'"
      then show ?thesis using o f'_lt f'_dm by blast
    next
      assume m: "g \<in> set (threads s)"
      have "p < length (heap w)" using old_lt[OF m o] .
      then have "p < length (heap w')" using hp by simp
      then show ?thesis using old_dm[OF m o] by blast
    qed
  qed
  have f_ab: "\<And>p. var_a f = Some p \<Longrightarrow> var_b f \<noteq> Some p"
    using assms(1) fmem by (auto simp: heap_ok_def)
  have not_both: "\<not> (var_a f = None \<and> var_b f = None \<and> var_a f' \<noteq> None \<and> var_b f' \<noteq> None)"
  proof
    assume n: "var_a f = None \<and> var_b f = None \<and> var_a f' \<noteq> None \<and> var_b f' \<noteq> None"
    then have "pc f = L_print \<or> pc f = L_alloc_a \<or> (\<exists>e. pc f = Raised e)"
      using fi by (cases "pc f") (auto simp: frame_ok_def vars_ok_def stage_def square_at_def)
    then show False
      using st n
      by (auto simp: step_print step_alloc_a step_finished is_finished_def split: if_splits)
  qed
  have f'_ab: "\<And>p. var_a f' = Some p \<Longrightarrow> var_b f' \<noteq> Some p"
  proof
    fix p assume pa: "var_a f' = Some p" and pb: "var_b f' = Some p"
    have ca: "var_a f = Some p \<or> (var_a f = None \<and> p = length (heap w))"
      using bd pa by (auto simp: binds_def)
    have cb: "var_b f = Some p \<or> (var_b f = None \<and> p = length (heap w))"
      using bd pb by (auto simp: binds_def)
    have lt: "var_a f = Some p \<or> var_b f = Some p \<Longrightarrow> p < length (heap w)"
      using old_lt[OF fmem, of p] by (simp add: owns_def)
    from ca cb show False
    proof (elim disjE conjE)
      assume "var_a f = Some p" "var_b f = Some p"
      then show False using f_ab by blast
    next
      assume "var_a f = Some p" "p = length (heap w)"
      then show False using lt by simp
    next
      assume "p = length (heap w)" "var_b f = Some p"
      then show False using lt by simp
    next
      assume "var_a f = None" "var_b f = None"
      then show False using not_both pa pb by simp
    qed
  qed
  have b: "\<forall>g\<in>set ((threads s)[i := f']). \<forall>p. var_a g = Some p \<longrightarrow> var_b g \<noteq> Some p"
  proof (intro ballI allI impI)
    fix g p assume g: "g \<in> set ((threads s)[i := f'])" and o: "var_a g = Some p"
    have "g = f' \<or> g \<in> set (threads s)"
      using g set_update_subset_insert[of "threads s" i f'] by auto
    then show "var_b g \<noteq> Some p"
      using o f'_ab assms(1) by (auto simp: heap_ok_def)
  qed
  have f'_old: "\<And>p. owns f' p \<Longrightarrow> owns f p \<or> p = length (heap w)"
    using new by blast
  have c: "\<forall>j<length (threads s). \<forall>k<length (threads s). \<forall>p.
             owns ((threads s)[i := f'] ! j) p \<and> owns ((threads s)[i := f'] ! k) p \<longrightarrow> j = k"
  proof (intro allI impI)
    fix j k p
    assume j: "j < length (threads s)" and k: "k < length (threads s)"
      and o: "owns ((threads s)[i := f'] ! j) p \<and> owns ((threads s)[i := f'] ! k) p"
    show "j = k"
    proof (rule ccontr)
      assume ne: "j \<noteq> k"
      have dis: "\<And>x y. x < length (threads s) \<Longrightarrow> y < length (threads s) \<Longrightarrow>
                  owns (threads s ! x) p \<Longrightarrow> owns (threads s ! y) p \<Longrightarrow> x = y"
        using assms(1) unfolding heap_ok_def by blast
      show False
      proof (cases "j = i")
        case ji: True
        then have ki: "k \<noteq> i" using ne by simp
        have ok: "owns (threads s ! k) p" using o ki by simp
        have "owns f' p" using o ji True by simp
        then have "owns f p \<or> p = length (heap w)" by (rule f'_old)
        moreover have "p < length (heap w)" using old_lt[OF _ ok] k by simp
        ultimately have "owns (threads s ! i) p" by (simp add: f_def)
        then show False using dis[OF True k _ ok] ki by simp
      next
        case ji: False
        have oj: "owns (threads s ! j) p" using o ji by simp
        show False
        proof (cases "k = i")
          case ki: True
          have "owns f' p" using o ki True by simp
          then have "owns f p \<or> p = length (heap w)" by (rule f'_old)
          moreover have "p < length (heap w)" using old_lt[OF _ oj] j by simp
          ultimately have "owns (threads s ! i) p" by (simp add: f_def)
          then show False using dis[OF True j _ oj] ji by simp
        next
          case ki: False
          have "owns (threads s ! k) p" using o ki by simp
          then show False using dis[OF j k oj] ne by simp
        qed
      qed
    qed
  qed
  show ?thesis
    unfolding heap_ok_def s' using a b c by simp
qed

lemma heap_ok_step: "heap_ok C E s \<Longrightarrow> frames_ok C s \<Longrightarrow> heap_ok C E (step C E x s)"
  by (cases x) (simp_all add: step_def heap_ok_tick heap_ok_main heap_ok_run_thread)

lemma heap_ok_run: "heap_ok C E (run C E t sched)"
  by (induction sched rule: rev_induct)
    (simp_all add: run_Nil run_snoc heap_ok_init heap_ok_step frames_ok_run)

subsection \<open>The coordinator\<close>

lemma main_ok_init: "main_ok C (init t)"
  by (simp add: main_ok_def init_def)

lemma main_ok_tick:
  "main_ok C s \<Longrightarrow> main_ok C (s\<lparr>world := (world s)\<lparr>clock := clock (world s) + max 0 d\<rparr>\<rparr>)"
  by (simp add: main_ok_def launched_def split: mpc.splits)

lemma all_finished_upto:
  assumes "\<forall>j<n. is_finished (xs ! j)" "length xs = Suc n" "is_finished (xs ! n)"
  shows "\<forall>f\<in>set xs. is_finished f"
proof
  fix f assume "f \<in> set xs"
  then obtain j where j: "j < length xs" "f = xs ! j" by (auto simp: in_set_conv_nth)
  then show "is_finished f" using assms by (cases "j = n") auto
qed

lemma main_ok_main:
  assumes "main_ok C s"
  shows "main_ok C (main C s)"
proof (cases "main_pc s")
  case M_print_start
  then show ?thesis using assms by (simp add: main_ok_def main_def)
next
  case (M_spawn_cpu k)
  show ?thesis
  proof (cases "int k < NUM_CPU_THREADS C")
    case True
    then show ?thesis using assms M_spawn_cpu
      by (auto simp: main_ok_def main_def thread_start_def new_frame_def
          replicate_append_same)
  next
    case False
    then have "k = nat (NUM_CPU_THREADS C)"
      using assms M_spawn_cpu by (auto simp: main_ok_def)
    then show ?thesis using assms M_spawn_cpu False
      by (auto simp: main_ok_def main_def)
  qed
next
  case M_spawn_gpu
  then show ?thesis using assms
    by (auto simp: main_ok_def main_def thread_start_def new_frame_def launched_def)
next
  case (M_join_cpu k)
  show ?thesis
  proof (cases "k < length (cpu_threads s)")
    case True
    then have kn: "k < nat (NUM_CPU_THREADS C)" and ck: "cpu_threads s ! k = k"
      using assms M_join_cpu by (auto simp: main_ok_def launched_def)
    show ?thesis
    proof (cases "thread_done s (cpu_threads s ! k)")
      case td: True
      then have "is_finished (threads s ! k)" by (simp add: thread_done_def ck)
      then have "\<forall>j<Suc k. is_finished (threads s ! j)"
        using assms M_join_cpu by (auto simp: main_ok_def less_Suc_eq)
      then show ?thesis using assms M_join_cpu True td kn
        by (simp add: main_ok_def main_def launched_def)
    next
      case False
      then show ?thesis using assms M_join_cpu True by (simp add: main_ok_def main_def)
    qed
  next
    case False
    then have "k = nat (NUM_CPU_THREADS C)"
      using assms M_join_cpu by (auto simp: main_ok_def launched_def)
    then show ?thesis using assms M_join_cpu False
      by (simp add: main_ok_def main_def launched_def)
  qed
next
  case M_join_gpu
  then have l: "launched C s"
    and fin: "\<forall>j<nat (NUM_CPU_THREADS C). is_finished (threads s ! j)"
    using assms by (simp_all add: main_ok_def)
  have g: "gpu_thread s = Some (nat (NUM_CPU_THREADS C))"
    and len: "length (threads s) = Suc (nat (NUM_CPU_THREADS C))"
    using l by (simp_all add: launched_def)
  show ?thesis
  proof (cases "thread_done s (nat (NUM_CPU_THREADS C))")
    case True
    then have "is_finished (threads s ! nat (NUM_CPU_THREADS C))"
      by (simp add: thread_done_def)
    then have "\<forall>f\<in>set (threads s). is_finished f"
      using all_finished_upto[OF fin len] by blast
    then show ?thesis using M_join_gpu l g True
      by (simp add: main_ok_def main_def launched_def)
  next
    case False
    then show ?thesis using assms M_join_gpu g by (simp add: main_ok_def main_def)
  qed
next
  case M_print_done
  then show ?thesis using assms by (simp add: main_ok_def main_def launched_def)
next
  case M_returned
  then show ?thesis using assms by (simp add: main_ok_def main_def)
qed

lemma worker_step_kind: "kind (fst (worker_step C E f w)) = kind f"
  by (cases "kind f"; cases "pc f")
    (auto simp: worker_step_def cpu_stress_def gpu_stress_def loop_test_def Let_def
      split: sum.splits prod.splits option.splits)

lemma run_thread_same:
  "main_pc (run_thread C E i s) = main_pc s \<and> cpu_threads (run_thread C E i s) = cpu_threads s
   \<and> gpu_thread (run_thread C E i s) = gpu_thread s
   \<and> length (threads (run_thread C E i s)) = length (threads s)
   \<and> map kind (threads (run_thread C E i s)) = map kind (threads s)"
  by (simp add: run_thread_alt worker_step_kind map_update list_update_same_conv)

lemma run_thread_finished:
  assumes "j < length (threads s)" "is_finished (threads s ! j)"
  shows "threads (run_thread C E i s) ! j = threads s ! j"
  using assms by (cases "i = j") (simp_all add: run_thread_alt step_finished)

lemma main_ok_run_thread:
  assumes "main_ok C s"
  shows "main_ok C (run_thread C E i s)"
proof -
  note same = run_thread_same[of C E i s]
  have fin: "\<And>j. j < length (threads s) \<Longrightarrow> is_finished (threads s ! j) \<Longrightarrow>
               is_finished (threads (run_thread C E i s) ! j)"
    by (simp add: run_thread_finished)
  have all: "(\<forall>f\<in>set (threads s). is_finished f) \<Longrightarrow>
             (\<forall>f\<in>set (threads (run_thread C E i s)). is_finished f)"
  proof (intro ballI)
    fix f
    assume a: "\<forall>f\<in>set (threads s). is_finished f"
      and f: "f \<in> set (threads (run_thread C E i s))"
    obtain j where j: "j < length (threads s)" "f = threads (run_thread C E i s) ! j"
      using f same by (auto simp: in_set_conv_nth)
    have "is_finished (threads s ! j)" using a j(1) by simp
    then show "is_finished f" using fin j by simp
  qed
  show ?thesis
  proof (cases "main_pc s")
    case (M_join_cpu k)
    then show ?thesis using assms same fin
      by (auto simp: main_ok_def launched_def)
  next
    case M_join_gpu
    then show ?thesis using assms same fin
      by (auto simp: main_ok_def launched_def)
  next
    case M_print_done
    then show ?thesis using assms same all
      by (auto simp: main_ok_def launched_def)
  next
    case M_returned
    then show ?thesis using assms same all
      by (auto simp: main_ok_def launched_def)
  qed (use assms same in \<open>auto simp: main_ok_def\<close>)
qed

lemma main_ok_step: "main_ok C s \<Longrightarrow> main_ok C (step C E x s)"
  by (cases x) (simp_all add: step_def main_ok_tick main_ok_main main_ok_run_thread)

lemma main_ok_run: "main_ok C (run C E t sched)"
  by (induction sched rule: rev_induct)
    (simp_all add: run_Nil run_snoc main_ok_init main_ok_step)

subsection \<open>Standard output\<close>

lemma worker_step_out:
  assumes "frame_ok C w f" "traces_ok C w" "worker_step C E f w = (f', w')"
  shows "if pc f = L_print
         then stdout w' = stdout w @ [worker_msg (kind f)] \<and> pc f' = L_alloc_a
         else stdout w' = stdout w \<and> pc f' \<noteq> L_print"
proof (cases "pc f")
  case L_print
  then show ?thesis using assms(3)
    by (auto simp: step_print py_print_def worker_msg_def split: kind.splits)
next
  case L_alloc_a
  then show ?thesis using assms(3)
    by (auto simp: step_alloc_a with_matrix_def split: if_splits)
next
  case L_alloc_b
  then show ?thesis using assms(3)
    by (auto simp: step_alloc_b with_matrix_def split: if_splits)
next
  case L_deadline
  then show ?thesis using assms(3) by (auto simp: step_deadline)
next
  case L_while
  then obtain e where e: "end_time f = Some e"
    using assms(1) by (auto simp: frame_ok_def timing_ok_def stage_def)
  show ?thesis using assms(3) L_while
    by (cases "clock w < e") (auto simp: step_while[OF L_while e])
next
  case L_multiply
  from assms(1) L_multiply obtain pa pb where
    ab: "var_a f = Some pa" "var_b f = Some pb"
      "square_at C w (kind f) (Some pa)" "square_at C w (kind f) (Some pb)"
    by (auto simp: frame_ok_def vars_ok_def stage_def square_at_def split: option.splits)
  show ?thesis
    using assms(3) L_multiply
    by (auto simp: step_multiply[OF L_multiply ab assms(2)] multiplied_def split: kind.splits)
next
  case Returned
  then show ?thesis using assms(3) by (auto simp: step_finished is_finished_def)
next
  case (Raised e)
  then show ?thesis using assms(3) by (auto simp: step_finished is_finished_def)
qed

lemma announced_update:
  assumes "i < length fs"
  shows "announced k (fs[i := g]) + (if kind (fs ! i) = k \<and> pc (fs ! i) \<noteq> L_print then 1 else 0)
         = announced k fs + (if kind g = k \<and> pc g \<noteq> L_print then 1 else 0)"
  using assms
proof (induction fs arbitrary: i)
  case Nil
  then show ?case by simp
next
  case (Cons x xs)
  show ?case
  proof (cases i)
    case 0
    then show ?thesis by (simp add: announced_def)
  next
    case (Suc j)
    then have "j < length xs" using Cons.prems by simp
    from Cons.IH[OF this] show ?thesis
      unfolding announced_def Suc by (auto split: if_splits)
  qed
qed

lemma announced_append_new: "announced k (fs @ [new_frame k' t]) = announced k fs"
  by (simp add: announced_def new_frame_def)

lemma out_ok_init: "out_ok (init t)"
  by (simp add: out_ok_def init_def announced_def)

lemma out_ok_tick:
  "out_ok s \<Longrightarrow> out_ok (s\<lparr>world := (world s)\<lparr>clock := clock (world s) + max 0 d\<rparr>\<rparr>)"
  by (simp add: out_ok_def)

lemma msgs_distinct:
  "worker_msg CPU \<noteq> worker_msg GPU" "worker_msg k \<noteq> done_msg" "worker_msg k \<noteq> start_msg"
  "start_msg \<noteq> done_msg" "start_msg \<noteq> worker_msg k" "done_msg \<noteq> worker_msg k"
  "done_msg \<noteq> start_msg"
  by (simp_all add: worker_msg_def done_msg_def start_msg_def split: kind.splits)

lemma out_ok_main:
  assumes "out_ok s" "main_ok C s"
  shows "out_ok (main C s)"
proof (cases "main_pc s")
  case M_print_start
  then have "threads s = []" "stdout (world s) = []"
    using assms by (auto simp: main_ok_def out_ok_def announced_def)
  then show ?thesis using M_print_start msgs_distinct
    by (simp add: out_ok_def main_def py_print_def announced_def start_msg_def[symmetric])
next
  case (M_spawn_cpu k)
  then show ?thesis using assms(1)
    by (auto simp: out_ok_def main_def thread_start_def announced_append_new)
next
  case M_spawn_gpu
  then show ?thesis using assms(1)
    by (auto simp: out_ok_def main_def thread_start_def announced_append_new)
next
  case (M_join_cpu k)
  then show ?thesis using assms(1) by (auto simp: out_ok_def main_def)
next
  case M_join_gpu
  then show ?thesis using assms(1) by (auto simp: out_ok_def main_def split: option.splits)
next
  case M_print_done
  then show ?thesis using assms(1) msgs_distinct
    by (auto simp: out_ok_def main_def py_print_def done_msg_def[symmetric])
next
  case M_returned
  then show ?thesis using assms(1) by (simp add: main_def)
qed

lemma out_ok_run_thread:
  assumes "out_ok s" "main_ok C s" "frames_ok C s"
  shows "out_ok (run_thread C E i s)"
proof (cases "i < length (threads s)")
  case False
  then show ?thesis using assms by (simp add: run_thread_alt)
next
  case True
  define f where "f = threads s ! i"
  define w where "w = world s"
  obtain f' w' where st: "worker_step C E f w = (f', w')"
    by (cases "worker_step C E f w")
  have fi: "frame_ok C w f" and tr: "traces_ok C w"
    using assms(3) True by (simp_all add: frames_ok_def f_def w_def)
  have out: "if pc f = L_print
             then stdout w' = stdout w @ [worker_msg (kind f)] \<and> pc f' = L_alloc_a
             else stdout w' = stdout w \<and> pc f' \<noteq> L_print"
    by (rule worker_step_out[OF fi tr st])
  have kd: "kind f' = kind f" using worker_step_kind[of C E f w] st by simp
  have s': "run_thread C E i s = s\<lparr>world := w', threads := (threads s)[i := f']\<rparr>"
    using True st by (simp add: run_thread_alt f_def w_def)
  have ne: "main_pc s \<noteq> M_print_start"
    using assms(2) True by (auto simp: main_ok_def)
  note upd = announced_update[OF True, of _ f', folded f_def]
  show ?thesis
  proof (cases "pc f = L_print")
    case False
    then have o: "stdout w' = stdout w" and p: "pc f' \<noteq> L_print" using out by simp_all
    have "\<And>k. announced k ((threads s)[i := f']) = announced k (threads s)"
      using upd False p kd by (simp split: if_splits)
    then show ?thesis using assms(1) o by (simp add: s' out_ok_def w_def)
  next
    case pr: True
    then have o: "stdout w' = stdout w @ [worker_msg (kind f)]" and p: "pc f' = L_alloc_a"
      using out by simp_all
    have nf: "\<not> is_finished f" using pr by (simp add: is_finished_def)
    have nr: "main_pc s \<noteq> M_returned"
      using assms(2) True nf by (auto simp: main_ok_def f_def)
    have an: "\<And>k. announced k ((threads s)[i := f'])
                = announced k (threads s) + (if kind f = k then 1 else 0)"
      using upd pr p kd by simp
    show ?thesis
      using assms(1) ne nr msgs_distinct
      by (cases "kind f") (simp_all add: s' out_ok_def w_def[symmetric] o an)
  qed
qed

lemma out_ok_step:
  "out_ok s \<Longrightarrow> main_ok C s \<Longrightarrow> frames_ok C s \<Longrightarrow> out_ok (step C E x s)"
  by (cases x) (simp_all add: step_def out_ok_tick out_ok_main out_ok_run_thread)

lemma out_ok_run: "out_ok (run C E t sched)"
  by (induction sched rule: rev_induct)
    (simp_all add: run_Nil run_snoc out_ok_init out_ok_step frames_ok_run main_ok_run)

lemma finished_not_print: "is_finished f \<Longrightarrow> pc f \<noteq> L_print"
  by (auto simp: is_finished_def)

lemma announced_all_finished:
  "\<forall>f\<in>set fs. is_finished f \<Longrightarrow> announced k fs = count_list (map kind fs) k"
  by (induction fs) (auto simp: announced_def finished_not_print)

lemma count_list_replicate_same: "count_list (replicate n x) x = n"
  by (induction n) simp_all

lemma count_list_replicate_other: "x \<noteq> y \<Longrightarrow> count_list (replicate n x) y = 0"
  by (induction n) simp_all

lemma count_list_append2: "count_list (xs @ ys) x = count_list xs x + count_list ys x"
  by (induction xs) simp_all

lemma count_list_pos_iff: "(0 < count_list xs x) = (x \<in> set xs)"
  by (induction xs) auto

subsection \<open>From one state to the next\<close>

lemma step_heap_grows:
  assumes "frames_ok C s"
  shows "\<exists>ys. heap (world (step C E x s)) = heap (world s) @ ys"
proof (cases x)
  case (Tick d)
  then show ?thesis by (simp add: step_def)
next
  case RunMain
  then show ?thesis by (simp add: step_def main_heap)
next
  case (RunThread i)
  show ?thesis
  proof (cases "i < length (threads s)")
    case False
    then show ?thesis using RunThread by (simp add: step_def run_thread_alt)
  next
    case True
    obtain f' w' where st: "worker_step C E (threads s ! i) (world s) = (f', w')"
      by (cases "worker_step C E (threads s ! i) (world s)")
    have "step_post C (world s) (threads s ! i) w' f'"
      using worker_step_preserves[OF _ _ st] assms True by (simp add: frames_ok_def)
    then show ?thesis using RunThread True st
      by (auto simp: step_def run_thread_alt step_post_def)
  qed
qed

lemma step_keeps_frames:
  assumes "frames_ok C s" "i < length (threads s)"
  shows "i < length (threads (step C E x s))
         \<and> (var_a (threads (step C E x s) ! i) = var_a (threads s ! i)
            \<or> var_a (threads s ! i) = None)
         \<and> (var_b (threads (step C E x s) ! i) = var_b (threads s ! i)
            \<or> var_b (threads s ! i) = None)"
proof (cases x)
  case (Tick d)
  then show ?thesis using assms(2) by (simp add: step_def)
next
  case RunMain
  then show ?thesis using assms(2) main_threads[of C s]
    by (auto simp: step_def nth_append)
next
  case (RunThread j)
  show ?thesis
  proof (cases "j = i")
    case False
    then show ?thesis using RunThread assms(2) by (simp add: step_def run_thread_alt)
  next
    case True
    obtain f' w' where st: "worker_step C E (threads s ! i) (world s) = (f', w')"
      by (cases "worker_step C E (threads s ! i) (world s)")
    have "binds C E (world s) (threads s ! i) w' f'"
      using worker_step_binds[OF _ _ st] assms by (simp add: frames_ok_def)
    then show ?thesis using RunThread True st assms(2)
      by (auto simp: step_def run_thread_alt binds_def)
  qed
qed

subsection \<open>Consequences for a single worker\<close>

lemma reach_frame:
  "f \<in> set (threads (run C E t sched)) \<Longrightarrow> frame_ok C (world (run C E t sched)) f"
  using frames_ok_run[of C E t sched] by (simp add: frames_ok_def)

lemma reach_traces: "traces_ok C (world (run C E t sched))"
  using frames_ok_run[of C E t sched] by (simp add: frames_ok_def)

lemma returned_facts:
  assumes "frame_ok C w f" "pc f = Returned"
  shows "\<exists>e ta c cs. end_time f = Some e \<and> alloc_done_at f = Some ta \<and> checks f = c # cs
           \<and> started_at f \<le> ta \<and> ta + duration C \<le> e \<and> e \<le> c
           \<and> (case cs of [] \<Rightarrow> True | c' # _ \<Rightarrow> c' < e \<and> e - duration C \<le> c')"
proof -
  have st: "4 \<le> stage (pc f)" "3 \<le> stage (pc f)" using assms(2) by (simp_all add: stage_def)
  have t: "timing_ok C w f" and v: "vars_ok C w f" using assms(1) by (simp_all add: frame_ok_def)
  from t st obtain e ta where e: "end_time f = Some e" and ta: "alloc_done_at f = Some ta"
    and b: "ta + duration C \<le> e" and l: "loop_ok f e (duration C)"
    by (auto simp: timing_ok_def)
  from t st ta have s: "started_at f \<le> ta" by (auto simp: timing_ok_def)
  from v assms(2) obtain c cs where c: "checks f = c # cs"
    by (cases "checks f") (auto simp: vars_ok_def)
  from l c assms(2) have "e \<le> c"
    and "case cs of [] \<Rightarrow> True | c' # _ \<Rightarrow> c' < e \<and> e - duration C \<le> c'"
    by (simp_all add: loop_ok_def)
  then show ?thesis using e ta c s b by blast
qed

lemma nonpositive_facts:
  assumes "frame_ok C w f" "TEST_DURATION_SECONDS C \<le> 0"
  shows "pc f \<noteq> L_multiply \<and> var_result f = None \<and> length (checks f) \<le> 1"
proof -
  have d: "duration C \<le> 0" using assms(2) by (simp add: duration_def)
  show ?thesis
  proof (cases "4 \<le> stage (pc f)")
    case False
    then show ?thesis using assms(1)
      by (cases "pc f") (auto simp: frame_ok_def vars_ok_def stage_def)
  next
    case True
    then obtain e where e: "end_time f = Some e" and l: "loop_ok f e (duration C)"
      using assms(1) by (auto simp: frame_ok_def timing_ok_def)
    have v: "vars_ok C w f" using assms(1) by (simp add: frame_ok_def)
    have pcs: "pc f = L_while \<or> pc f = L_multiply \<or> pc f = Returned"
      using True by (cases "pc f") (simp_all add: stage_def)
    then show ?thesis
    proof (elim disjE)
      assume p: "pc f = L_while"
      then have "checks f = []"
        using l d by (cases "checks f") (auto simp: loop_ok_def)
      then show ?thesis using v p by (simp add: vars_ok_def stage_def iterations_def)
    next
      assume p: "pc f = L_multiply"
      then have "checks f \<noteq> []" using v by (simp add: vars_ok_def)
      then have False using l d p by (cases "checks f") (auto simp: loop_ok_def)
      then show ?thesis ..
    next
      assume p: "pc f = Returned"
      then have ne: "checks f \<noteq> []" using v by (simp add: vars_ok_def)
      then obtain c cs where c: "checks f = c # cs" by (cases "checks f") auto
      have "cs = []" using l d p c by (cases cs) (auto simp: loop_ok_def)
      then show ?thesis using v p c by (simp add: vars_ok_def stage_def iterations_def)
    qed
  qed
qed

lemma run_snoc_thread:
  assumes "i < length (threads (run C E t sched))"
  shows "threads (run C E t (sched @ [RunThread i])) ! i
           = fst (worker_step C E (threads (run C E t sched) ! i) (world (run C E t sched)))"
    and "world (run C E t (sched @ [RunThread i]))
           = snd (worker_step C E (threads (run C E t sched) ! i) (world (run C E t sched)))"
    and "length (threads (run C E t (sched @ [RunThread i])))
           = length (threads (run C E t sched))"
  using assms by (simp_all add: run_snoc step_def run_thread_alt)

lemma countdown_step:
  assumes "TEST_DURATION_SECONDS C \<le> 0" "0 \<le> TENSOR_SIZE C"
    and "i < length (threads (run C E t sched))"
  shows "remaining (pc (threads (run C E t (sched @ [RunThread i])) ! i))
           = remaining (pc (threads (run C E t sched) ! i)) - 1"
proof -
  define f where "f = threads (run C E t sched) ! i"
  define w where "w = world (run C E t sched)"
  have fo: "frame_ok C w f"
    using reach_frame[of f C E t sched] assms(3) by (simp add: f_def w_def)
  have nxt: "threads (run C E t (sched @ [RunThread i])) ! i = fst (worker_step C E f w)"
    using run_snoc_thread(1)[OF assms(3)] by (simp add: f_def w_def)
  have d: "duration C \<le> 0" using assms(1) by (simp add: duration_def)
  have "remaining (pc (fst (worker_step C E f w))) = remaining (pc f) - 1"
  proof (cases "pc f")
    case L_print
    then show ?thesis by (simp add: step_print remaining_def)
  next
    case L_alloc_a
    then show ?thesis using assms(2) by (simp add: step_alloc_a remaining_def)
  next
    case L_alloc_b
    then show ?thesis using assms(2) by (simp add: step_alloc_b remaining_def)
  next
    case L_deadline
    then show ?thesis by (simp add: step_deadline remaining_def)
  next
    case L_while
    then obtain e where e: "end_time f = Some e" and c: "e - duration C \<le> clock w"
      using fo by (auto simp: frame_ok_def timing_ok_def stage_def)
    have "\<not> clock w < e" using c d by simp
    then show ?thesis using L_while by (simp add: step_while[OF L_while e] remaining_def)
  next
    case L_multiply
    then show ?thesis using nonpositive_facts[OF fo assms(1)] by simp
  next
    case Returned
    then show ?thesis by (simp add: step_finished is_finished_def remaining_def)
  next
    case (Raised e)
    then show ?thesis by (simp add: step_finished is_finished_def remaining_def)
  qed
  then show ?thesis by (simp add: nxt f_def)
qed

lemma countdown:
  assumes "TEST_DURATION_SECONDS C \<le> 0" "0 \<le> TENSOR_SIZE C"
    and "i < length (threads (run C E t sched))"
  shows "i < length (threads (run C E t (sched @ replicate n (RunThread i))))
         \<and> remaining (pc (threads (run C E t (sched @ replicate n (RunThread i))) ! i))
             = remaining (pc (threads (run C E t sched) ! i)) - n"
proof (induction n)
  case 0
  then show ?case using assms(3) by simp
next
  case (Suc n)
  have eq: "sched @ replicate (Suc n) (RunThread i)
            = (sched @ replicate n (RunThread i)) @ [RunThread i]"
    by (simp add: replicate_append_same)
  from Suc have i: "i < length (threads (run C E t (sched @ replicate n (RunThread i))))"
    by simp
  show ?case
    unfolding eq
    using countdown_step[OF assms(1,2) i] run_snoc_thread(3)[OF i] Suc by simp
qed

lemma remaining_zero:
  "remaining l = 0 \<Longrightarrow> l = Returned \<or> (\<exists>e. l = Raised e)"
  by (cases l) (simp_all add: remaining_def)

lemma remaining_le: "remaining l \<le> 5"
  by (cases l) (simp_all add: remaining_def)

lemma announced_pos:
  "f \<in> set fs \<Longrightarrow> pc f \<noteq> L_print \<Longrightarrow> 0 < announced (kind f) fs"
  by (induction fs) (auto simp: announced_def)

lemma setup_step:
  assumes "0 \<le> TENSOR_SIZE C" and "i < length (threads (run C E t sched))"
  shows "setup_left (pc (threads (run C E t (sched @ [RunThread i])) ! i))
           = setup_left (pc (threads (run C E t sched) ! i)) - 1"
proof -
  define f where "f = threads (run C E t sched) ! i"
  define w where "w = world (run C E t sched)"
  have fo: "frame_ok C w f"
    using reach_frame[of f C E t sched] assms(2) by (simp add: f_def w_def)
  have tr: "traces_ok C w" using reach_traces[of C E t sched] by (simp add: w_def)
  have nxt: "threads (run C E t (sched @ [RunThread i])) ! i = fst (worker_step C E f w)"
    using run_snoc_thread(1)[OF assms(2)] by (simp add: f_def w_def)
  have "setup_left (pc (fst (worker_step C E f w))) = setup_left (pc f) - 1"
  proof (cases "pc f")
    case L_print
    then show ?thesis by (simp add: step_print setup_left_def)
  next
    case L_alloc_a
    then show ?thesis using assms(1) by (simp add: step_alloc_a setup_left_def)
  next
    case L_alloc_b
    then show ?thesis using assms(1) by (simp add: step_alloc_b setup_left_def)
  next
    case L_deadline
    then show ?thesis by (simp add: step_deadline setup_left_def)
  next
    case L_while
    then obtain e where e: "end_time f = Some e"
      using fo by (auto simp: frame_ok_def timing_ok_def stage_def)
    show ?thesis using L_while by (simp add: step_while[OF L_while e] setup_left_def)
  next
    case L_multiply
    from fo L_multiply obtain pa pb where
      ab: "var_a f = Some pa" "var_b f = Some pb"
        "square_at C w (kind f) (Some pa)" "square_at C w (kind f) (Some pb)"
      by (auto simp: frame_ok_def vars_ok_def stage_def square_at_def split: option.splits)
    show ?thesis
      using L_multiply by (simp add: step_multiply[OF L_multiply ab tr] setup_left_def)
  next
    case Returned
    then show ?thesis by (simp add: step_finished is_finished_def setup_left_def)
  next
    case (Raised e)
    then show ?thesis by (simp add: step_finished is_finished_def setup_left_def)
  qed
  then show ?thesis by (simp add: nxt f_def)
qed

lemma setup_steps:
  assumes "0 \<le> TENSOR_SIZE C" and "i < length (threads (run C E t sched))"
  shows "i < length (threads (run C E t (sched @ replicate n (RunThread i))))
         \<and> setup_left (pc (threads (run C E t (sched @ replicate n (RunThread i))) ! i))
             = setup_left (pc (threads (run C E t sched) ! i)) - n"
proof (induction n)
  case 0
  then show ?case using assms(2) by simp
next
  case (Suc n)
  have eq: "sched @ replicate (Suc n) (RunThread i)
            = (sched @ replicate n (RunThread i)) @ [RunThread i]"
    by (simp add: replicate_append_same)
  from Suc have i: "i < length (threads (run C E t (sched @ replicate n (RunThread i))))"
    by simp
  show ?case
    unfolding eq
    using setup_step[OF assms(1) i] run_snoc_thread(3)[OF i] Suc by simp
qed

lemma setup_left_le: "setup_left l \<le> 4"
  by (cases l) (simp_all add: setup_left_def)

lemma setup_left_zero:
  "setup_left l = 0 \<Longrightarrow>
   l = L_while \<or> l = L_multiply \<or> l = Returned \<or> (\<exists>e. l = Raised e)"
  by (cases l) (simp_all add: setup_left_def)

lemma negative_size_frame:
  assumes "frame_ok C w f" "TENSOR_SIZE C < 0"
  shows "(pc f = L_print \<or> pc f = L_alloc_a \<or> pc f = Raised (alloc_error (kind f)))
         \<and> var_a f = None \<and> var_b f = None \<and> var_result f = None \<and> checks f = []"
  using assms by (cases "pc f") (auto simp: frame_ok_def vars_ok_def stage_def)

lemma matrices_shape_aux:
  assumes "frame_ok C w f" "TENSOR_SIZE C = 0" "var_a f = Some p \<or> var_b f = Some p"
  shows "shape (heap w ! p) = (0, 0)"
proof -
  have v: "vars_ok C w f" using assms(1) by (simp add: frame_ok_def)
  have "square_at C w (kind f) (Some p)"
    using assms(3)
  proof
    assume "var_a f = Some p"
    then show ?thesis using v by (auto simp: vars_ok_def split: if_splits)
  next
    assume "var_b f = Some p"
    then show ?thesis using v by (auto simp: vars_ok_def split: if_splits)
  qed
  then show ?thesis using assms(2) by (simp add: square_at_def side_def)
qed

subsection \<open>The cache of traces\<close>

lemma worker_step_traces:
  assumes "frame_ok C w f" "traces_ok C w" "worker_step C E f w = (f', w')"
  shows "(traces w' = traces w \<and> var_result f' = var_result f)
         \<or> (kind f = GPU \<and> traces w' = [cache_entry C])
         \<or> (kind f = CPU \<and> traces w' = traces w)"
proof (cases "pc f")
  case L_print
  then show ?thesis using assms(3) by (auto simp: step_print py_print_def)
next
  case L_alloc_a
  then show ?thesis using assms(3)
    by (auto simp: step_alloc_a with_matrix_def split: if_splits)
next
  case L_alloc_b
  then show ?thesis using assms(3)
    by (auto simp: step_alloc_b with_matrix_def split: if_splits)
next
  case L_deadline
  then show ?thesis using assms(3) by (auto simp: step_deadline)
next
  case L_while
  then obtain e where e: "end_time f = Some e"
    using assms(1) by (auto simp: frame_ok_def timing_ok_def stage_def)
  show ?thesis using assms(3) by (auto simp: step_while[OF L_while e])
next
  case L_multiply
  from assms(1) L_multiply obtain pa pb where
    ab: "var_a f = Some pa" "var_b f = Some pb"
      "square_at C w (kind f) (Some pa)" "square_at C w (kind f) (Some pb)"
    by (auto simp: frame_ok_def vars_ok_def stage_def square_at_def split: option.splits)
  show ?thesis
    using assms(3)
    by (cases "kind f") (auto simp: step_multiply[OF L_multiply ab assms(2)] multiplied_def)
next
  case Returned
  then show ?thesis using assms(3) by (auto simp: step_finished is_finished_def)
next
  case (Raised e)
  then show ?thesis using assms(3) by (auto simp: step_finished is_finished_def)
qed

lemma traced_ok_init: "traced_ok (init t)"
  by (simp add: traced_ok_def init_def)

lemma traced_ok_tick:
  "traced_ok s \<Longrightarrow> traced_ok (s\<lparr>world := (world s)\<lparr>clock := clock (world s) + max 0 d\<rparr>\<rparr>)"
  by (simp add: traced_ok_def)

lemma main_traces: "traces (world (main C s)) = traces (world s)"
  using main_world[of C s] by (auto simp: py_print_def)

lemma traced_ok_main:
  assumes "traced_ok s"
  shows "traced_ok (main C s)"
  using assms main_threads[of C s]
  by (auto simp: traced_ok_def main_traces new_frame_def)

lemma traced_ok_run_thread:
  assumes "traced_ok s" "frames_ok C s"
  shows "traced_ok (run_thread C E i s)"
proof (cases "i < length (threads s)")
  case False
  then show ?thesis using assms by (simp add: run_thread_alt)
next
  case True
  define f where "f = threads s ! i"
  define w where "w = world s"
  obtain f' w' where st: "worker_step C E f w = (f', w')"
    by (cases "worker_step C E f w")
  have fi: "frame_ok C w f" and tr: "traces_ok C w"
    using assms(2) True by (simp_all add: frames_ok_def f_def w_def)
  note t = worker_step_traces[OF fi tr st]
  have kd: "kind f' = kind f" using worker_step_kind[of C E f w] st by simp
  have s': "run_thread C E i s = s\<lparr>world := w', threads := (threads s)[i := f']\<rparr>"
    using True st by (simp add: run_thread_alt f_def w_def)
  have fmem: "f \<in> set (threads s)" using True by (simp add: f_def)
  have keep: "traces w \<noteq> [] \<Longrightarrow> traces w' \<noteq> []"
    using t by (auto simp: cache_entry_def)
  have new: "kind f' = GPU \<and> var_result f' \<noteq> None \<Longrightarrow> traces w' \<noteq> []"
    using t kd assms(1) fmem keep by (auto simp: traced_ok_def w_def)
  have "\<And>g. g \<in> set ((threads s)[i := f']) \<Longrightarrow> kind g = GPU \<and> var_result g \<noteq> None \<Longrightarrow>
          traces w' \<noteq> []"
  proof -
    fix g assume g: "g \<in> set ((threads s)[i := f'])" and k: "kind g = GPU \<and> var_result g \<noteq> None"
    have "g = f' \<or> g \<in> set (threads s)"
      using g set_update_subset_insert[of "threads s" i f'] by auto
    then show "traces w' \<noteq> []"
    proof
      assume "g = f'"
      then show ?thesis using new k by simp
    next
      assume "g \<in> set (threads s)"
      then have "traces w \<noteq> []" using assms(1) k by (auto simp: traced_ok_def w_def)
      then show ?thesis by (rule keep)
    qed
  qed
  then show ?thesis unfolding traced_ok_def s' by auto
qed

lemma traced_ok_step: "traced_ok s \<Longrightarrow> frames_ok C s \<Longrightarrow> traced_ok (step C E x s)"
  by (cases x) (simp_all add: step_def traced_ok_tick traced_ok_main traced_ok_run_thread)

lemma traced_ok_run: "traced_ok (run C E t sched)"
  by (induction sched rule: rev_induct)
    (simp_all add: run_Nil run_snoc traced_ok_init traced_ok_step frames_ok_run)

lemma operand_stable:
  assumes "i < length (threads (run C E t sched))"
  shows "i < length (threads (run C E t (sched @ rest)))
         \<and> (\<forall>p. var_a (threads (run C E t sched) ! i) = Some p \<longrightarrow>
                var_a (threads (run C E t (sched @ rest)) ! i) = Some p
                \<and> heap (world (run C E t (sched @ rest))) ! p
                    = heap (world (run C E t sched)) ! p)
         \<and> (\<forall>p. var_b (threads (run C E t sched) ! i) = Some p \<longrightarrow>
                var_b (threads (run C E t (sched @ rest)) ! i) = Some p
                \<and> heap (world (run C E t (sched @ rest))) ! p
                    = heap (world (run C E t sched)) ! p)"
proof (induction rest rule: rev_induct)
  case Nil
  then show ?case using assms by simp
next
  case (snoc x rest)
  define s where "s = run C E t (sched @ rest)"
  have eq: "run C E t (sched @ rest @ [x]) = step C E x s"
    using run_snoc[of C E t "sched @ rest" x] by (simp add: s_def)
  have fo: "frames_ok C s" by (simp add: s_def frames_ok_run)
  have i: "i < length (threads s)" using snoc by (simp add: s_def)
  note k = step_keeps_frames[OF fo i, of E x]
  obtain ys where hp: "heap (world (step C E x s)) = heap (world s) @ ys"
    using step_heap_grows[OF fo] by blast
  have fi: "frame_ok C (world s) (threads s ! i)"
    using fo i by (simp add: frames_ok_def)
  have lt: "\<And>p. owns (threads s ! i) p \<Longrightarrow> p < length (heap (world s))"
    by (rule frame_ok_owns[OF fi])
  have a: "var_a (threads (step C E x s) ! i) = Some p
           \<and> heap (world (step C E x s)) ! p = heap (world (run C E t sched)) ! p"
    if p: "var_a (threads (run C E t sched) ! i) = Some p" for p
  proof -
    have ih: "var_a (threads s ! i) = Some p"
      "heap (world s) ! p = heap (world (run C E t sched)) ! p"
      using snoc p by (simp_all add: s_def)
    have "p < length (heap (world s))" using lt ih(1) by (simp add: owns_def)
    then show ?thesis using k ih hp by (auto simp: nth_append)
  qed
  have b: "var_b (threads (step C E x s) ! i) = Some p
           \<and> heap (world (step C E x s)) ! p = heap (world (run C E t sched)) ! p"
    if p: "var_b (threads (run C E t sched) ! i) = Some p" for p
  proof -
    have ih: "var_b (threads s ! i) = Some p"
      "heap (world s) ! p = heap (world (run C E t sched)) ! p"
      using snoc p by (simp_all add: s_def)
    have "p < length (heap (world s))" using lt ih(1) by (simp add: owns_def)
    then show ?thesis using k ih hp by (auto simp: nth_append)
  qed
  show ?case
    using k a b by (simp add: eq)
qed

section \<open>The claims\<close>

subsection \<open>The coordinator waits for every worker\<close>

lemma demo_main_returned: "main_pc demo_final = M_returned"
  unfolding demo_final_def by code_simp

text \<open>
  Claim C1. In every run, once \<^verbatim>\<open>main\<close> stands at its last line (the completion
  message not yet printed), has returned, or has printed \<^verbatim>\<open>Load test completed.\<close>,
  there are exactly N + 1 threads, N of them CPU workers and the last one the GPU worker,
  and every one of them has finished. The workers finished at earlier steps of the run,
  so that the return of \<^verbatim>\<open>main\<close>, one step after its last line, comes strictly after
  the end of each worker. N is \<open>NUM_CPU_THREADS\<close>, none when negative.
\<close>

theorem coordinator_waits_for_all_workers:
  assumes "main_pc (run C E t sched) = M_print_done
           \<or> main_pc (run C E t sched) = M_returned
           \<or> ''Load test completed.'' \<in> set (stdout (world (run C E t sched)))"
  shows "length (threads (run C E t sched)) = nat (NUM_CPU_THREADS C) + 1
         \<and> map kind (threads (run C E t sched)) = replicate (nat (NUM_CPU_THREADS C)) CPU @ [GPU]
         \<and> (\<forall>f\<in>set (threads (run C E t sched)). is_finished f)"
proof -
  define s where "s = run C E t sched"
  have m: "main_ok C s" and o: "out_ok s"
    by (simp_all add: s_def main_ok_run out_ok_run)
  have "main_pc s = M_print_done \<or> main_pc s = M_returned"
  proof (rule ccontr)
    assume n: "\<not> (main_pc s = M_print_done \<or> main_pc s = M_returned)"
    then have "done_msg \<in> set (stdout (world s))"
      using assms by (simp add: s_def done_msg_def)
    then have "0 < count_list (stdout (world s)) done_msg"
      by (simp add: count_list_pos_iff)
    then show False using o n by (simp add: out_ok_def)
  qed
  then have "launched C s \<and> (\<forall>f\<in>set (threads s). is_finished f)"
    using m by (auto simp: main_ok_def)
  then show ?thesis by (simp add: launched_def s_def)
qed

theorem coordinator_waits_for_all_workers_witness:
  "main_pc demo_final = M_returned
   \<and> length (threads demo_final) = 2
   \<and> map kind (threads demo_final) = [CPU, GPU]
   \<and> is_finished (threads demo_final ! 0)
   \<and> is_finished (threads demo_final ! 1)"
proof -
  have h: "main_pc (run demo_config demo_env 0 demo_sched) = M_print_done
           \<or> main_pc (run demo_config demo_env 0 demo_sched) = M_returned
           \<or> ''Load test completed.'' \<in> set (stdout (world (run demo_config demo_env 0 demo_sched)))"
    using demo_main_returned by (simp add: demo_final_def)
  have n: "nat (NUM_CPU_THREADS demo_config) = 1" by (simp add: demo_config_def)
  have c: "length (threads demo_final) = 2
           \<and> map kind (threads demo_final) = [CPU, GPU]
           \<and> (\<forall>f\<in>set (threads demo_final). is_finished f)"
    using coordinator_waits_for_all_workers[OF h] by (simp add: demo_final_def n)
  then have "threads demo_final ! 0 \<in> set (threads demo_final)"
    "threads demo_final ! 1 \<in> set (threads demo_final)"
    by simp_all
  then show ?thesis using c demo_main_returned by blast
qed

subsection \<open>What the process prints\<close>

text \<open>
  Claim C8. When \<^verbatim>\<open>main\<close> has returned, standard output holds N + 3 lines: the
  overall start message first, the CPU start message N times and the GPU start message
  once (in the order the threads got to print), and the completion message once, as the
  last line. The process then exits with status 0: no line of \<^verbatim>\<open>main\<close> sets another
  status, whatever became of the workers, so in every run the status is 0 or the process
  has not exited yet.
\<close>

theorem messages_and_exit_status:
  assumes "main_pc (run C E t sched) = M_returned"
  shows "hd (stdout (world (run C E t sched)))
           = ''Starting AI-style CPU/GPU stress test for 2 hours...''
         \<and> last (stdout (world (run C E t sched))) = ''Load test completed.''
         \<and> count_list (stdout (world (run C E t sched))) ''[CPU] Starting CPU load...''
             = nat (NUM_CPU_THREADS C)
         \<and> count_list (stdout (world (run C E t sched))) ''[GPU] Starting GPU load...'' = 1
         \<and> count_list (stdout (world (run C E t sched))) ''Load test completed.'' = 1
         \<and> length (stdout (world (run C E t sched))) = nat (NUM_CPU_THREADS C) + 3
         \<and> exit_status (run C E t sched) = Some 0
         \<and> (exit_status (run C E t sched') = None \<or> exit_status (run C E t sched') = Some 0)"
proof -
  define s where "s = run C E t sched"
  have m: "main_ok C s" and o: "out_ok s"
    by (simp_all add: s_def main_ok_run out_ok_run)
  have r: "main_pc s = M_returned" using assms by (simp add: s_def)
  have l: "launched C s" and fin: "\<forall>f\<in>set (threads s). is_finished f"
    using m r by (simp_all add: main_ok_def)
  have kinds: "map kind (threads s) = replicate (nat (NUM_CPU_THREADS C)) CPU @ [GPU]"
    using l by (simp add: launched_def)
  have c: "announced CPU (threads s) = nat (NUM_CPU_THREADS C)"
    by (simp add: announced_all_finished[OF fin] kinds count_list_append2
        count_list_replicate_same)
  have g: "announced GPU (threads s) = 1"
    by (simp add: announced_all_finished[OF fin] kinds count_list_append2
        count_list_replicate_other)
  show ?thesis
    using o r c g
    by (simp add: out_ok_def s_def[symmetric] exit_status_def start_msg_def done_msg_def
        worker_msg_def)
qed

theorem messages_and_exit_status_witness:
  "main_pc demo_final = M_returned
   \<and> stdout (world demo_final)
       = [''Starting AI-style CPU/GPU stress test for 2 hours...'',
          ''[CPU] Starting CPU load...'', ''[GPU] Starting GPU load...'',
          ''Load test completed.'']
   \<and> count_list (stdout (world demo_final)) ''[CPU] Starting CPU load...'' = 1
   \<and> length (stdout (world demo_final)) = 4
   \<and> exit_status demo_final = Some 0"
proof -
  have h: "main_pc (run demo_config demo_env 0 demo_sched) = M_returned"
    using demo_main_returned by (simp add: demo_final_def)
  have n: "nat (NUM_CPU_THREADS demo_config) = 1" by (simp add: demo_config_def)
  have o: "stdout (world demo_final)
       = [''Starting AI-style CPU/GPU stress test for 2 hours...'',
          ''[CPU] Starting CPU load...'', ''[GPU] Starting GPU load...'',
          ''Load test completed.'']"
    unfolding demo_final_def by code_simp
  show ?thesis
    using messages_and_exit_status[OF h, of demo_sched] demo_main_returned o
    by (simp add: demo_final_def n)
qed

subsection \<open>The matrices of a worker\<close>

lemma demo_cpu_frame:
  "threads demo_final ! 0 =
     \<lparr>kind = CPU, pc = Returned, var_a = Some 0, var_b = Some 1, end_time = Some 6,
      var_result = Some 3, started_at = 0, alloc_done_at = Some 2, checks = [8, 5, 2]\<rparr>"
  unfolding demo_final_def by code_simp

lemma demo_gpu_frame:
  "threads demo_final ! 1 =
     \<lparr>kind = GPU, pc = Returned, var_a = Some 4, var_b = Some 5, end_time = Some 12,
      var_result = Some 6, started_at = 0, alloc_done_at = Some 8, checks = [13, 8]\<rparr>"
  unfolding demo_final_def by code_simp

lemma demo_threads_length: "length (threads demo_final) = 2"
  unfolding demo_final_def by code_simp

lemma demo_heap:
  "heap (world demo_final) =
     [\<lparr>shape = (2, 2), dtype = Float64, device = Host, data = [1, 2, 3, 4]\<rparr>,
      \<lparr>shape = (2, 2), dtype = Float64, device = Host, data = [5, 6, 7, 8]\<rparr>,
      \<lparr>shape = (2, 2), dtype = Float64, device = Host, data = [19, 22, 43, 50]\<rparr>,
      \<lparr>shape = (2, 2), dtype = Float64, device = Host, data = [19, 22, 43, 50]\<rparr>,
      \<lparr>shape = (2, 2), dtype = Float32, device = Host, data = [9, 10, 11, 12]\<rparr>,
      \<lparr>shape = (2, 2), dtype = Float32, device = Host, data = [13, 14, 15, 16]\<rparr>,
      \<lparr>shape = (2, 2), dtype = Float32, device = Host, data = [267, 286, 323, 346]\<rparr>]"
  unfolding demo_final_def by code_simp

text \<open>
  Claim C7. The side length is the constant \<open>TENSOR_SIZE\<close>, 2048 in the source. In
  every run, under every setting, a matrix bound to \<^verbatim>\<open>a\<close> or \<^verbatim>\<open>b\<close> of a worker is an
  allocated object, square with that side length, of 64-bit floats in a CPU worker and of
  32-bit floats in the GPU worker.
\<close>

theorem matrices_square_with_dtype:
  assumes "f \<in> set (threads (run C E t sched))"
    and "var_a f = Some p \<or> var_b f = Some p"
  shows "TENSOR_SIZE default_config = 2048
         \<and> p < length (heap (world (run C E t sched)))
         \<and> shape (heap (world (run C E t sched)) ! p)
             = (nat (TENSOR_SIZE C), nat (TENSOR_SIZE C))
         \<and> dtype (heap (world (run C E t sched)) ! p)
             = (case kind f of CPU \<Rightarrow> Float64 | GPU \<Rightarrow> Float32)"
proof -
  have "frame_ok C (world (run C E t sched)) f"
    using frames_ok_run[of C E t sched] assms(1) by (simp add: frames_ok_def)
  then have v: "vars_ok C (world (run C E t sched)) f" by (simp add: frame_ok_def)
  have "square_at C (world (run C E t sched)) (kind f) (Some p)"
    using assms(2)
  proof
    assume a: "var_a f = Some p"
    then show ?thesis using v by (auto simp: vars_ok_def split: if_splits)
  next
    assume b: "var_b f = Some p"
    then show ?thesis using v by (auto simp: vars_ok_def split: if_splits)
  qed
  then show ?thesis
    by (simp add: square_at_def side_def kind_dtype_def default_config_def)
qed

theorem matrices_square_with_dtype_witness:
  "threads demo_final ! 1 \<in> set (threads demo_final)
   \<and> var_b (threads demo_final ! 1) = Some 5
   \<and> kind (threads demo_final ! 1) = GPU
   \<and> TENSOR_SIZE demo_config = 2
   \<and> shape (heap (world demo_final) ! 5) = (2, 2)
   \<and> dtype (heap (world demo_final) ! 5) = Float32"
proof -
  have m: "threads (run demo_config demo_env 0 demo_sched) ! 1
           \<in> set (threads (run demo_config demo_env 0 demo_sched))"
    using demo_threads_length by (simp add: demo_final_def)
  have b: "var_a (threads (run demo_config demo_env 0 demo_sched) ! 1) = Some 5
           \<or> var_b (threads (run demo_config demo_env 0 demo_sched) ! 1) = Some 5"
    using demo_gpu_frame by (simp add: demo_final_def)
  show ?thesis
    using matrices_square_with_dtype[OF m b] m demo_gpu_frame
    by (simp add: demo_final_def demo_config_def)
qed

text \<open>
  Claim C4. For a side length S > 0 and two S by S matrices, the multiply step of the CPU
  worker, \<^verbatim>\<open>np.dot\<close>, returns an S by S matrix; so does the multiply step of the GPU
  worker, the decorated \<^verbatim>\<open>gpu_stress_step\<close>, called at any point of any run on two
  tensors of one dtype. In every run, whatever a worker has bound to the result of its
  last multiply step is a square matrix of the configured side length.
\<close>

theorem multiply_step_shape:
  assumes "0 < S" "shape x = (S, S)" "shape y = (S, S)"
  shows "(\<exists>m. np_dot x y = Inr m \<and> shape m = (S, S))
         \<and> (dtype x = dtype y \<longrightarrow>
              (\<exists>m. fst (gpu_stress_step x y (world (run C E t sched))) = Inr m
                   \<and> shape m = (S, S)))
         \<and> (\<forall>f p. f \<in> set (threads (run C E t sched)) \<and> var_result f = Some p \<longrightarrow>
              p < length (heap (world (run C E t sched)))
              \<and> shape (heap (world (run C E t sched)) ! p)
                  = (nat (TENSOR_SIZE C), nat (TENSOR_SIZE C)))"
proof -
  have cpu: "\<exists>m. np_dot x y = Inr m \<and> shape m = (S, S)"
    using assms by (simp add: np_dot_def)
  have gpu: "\<exists>m. fst (gpu_stress_step x y (world (run C E t sched))) = Inr m
                 \<and> shape m = (S, S)" if d: "dtype x = dtype y"
  proof -
    have tr: "traces_ok C (world (run C E t sched))"
      using frames_ok_run[of C E t sched] by (simp add: frames_ok_def)
    have "fst (gpu_stress_step x y (world (run C E t sched))) = tf_matmul x y"
      by (rule gpu_stress_step_result[OF tr _ d]) (simp add: assms)
    then show ?thesis using assms d by (simp add: tf_matmul_def)
  qed
  have res: "p < length (heap (world (run C E t sched)))
             \<and> shape (heap (world (run C E t sched)) ! p)
                 = (nat (TENSOR_SIZE C), nat (TENSOR_SIZE C))"
    if a: "f \<in> set (threads (run C E t sched)) \<and> var_result f = Some p" for f p
  proof -
    have "frame_ok C (world (run C E t sched)) f"
      using frames_ok_run[of C E t sched] a by (simp add: frames_ok_def)
    then have "square_at C (world (run C E t sched)) (kind f) (Some p)"
      using a by (auto simp: frame_ok_def vars_ok_def split: if_splits)
    then show ?thesis by (simp add: square_at_def side_def)
  qed
  show ?thesis using cpu gpu res by blast
qed

theorem multiply_step_shape_witness:
  "(0::nat) < 2 \<and> shape demo_a = (2, 2) \<and> shape demo_b = (2, 2)
   \<and> np_dot demo_a demo_b
       = Inr \<lparr>shape = (2, 2), dtype = Float32, device = Host, data = [19, 22, 43, 50]\<rparr>
   \<and> (\<exists>m. np_dot demo_a demo_b = Inr m \<and> shape m = (2, 2))
   \<and> (\<exists>m. fst (gpu_stress_step demo_a demo_b (world demo_final)) = Inr m \<and> shape m = (2, 2))
   \<and> var_result (threads demo_final ! 0) = Some 3
   \<and> shape (heap (world demo_final) ! 3) = (2, 2)"
proof -
  have s: "(0::nat) < 2" "shape demo_a = (2, 2)" "shape demo_b = (2, 2)"
    "dtype demo_a = dtype demo_b"
    by (simp_all add: demo_a_def demo_b_def)
  have v: "np_dot demo_a demo_b
       = Inr \<lparr>shape = (2, 2), dtype = Float32, device = Host, data = [19, 22, 43, 50]\<rparr>"
    by code_simp
  have m: "threads demo_final ! 0 \<in> set (threads demo_final)"
    using demo_threads_length by simp
  have r: "var_result (threads demo_final ! 0) = Some 3"
    by (simp add: demo_cpu_frame)
  have n: "nat (TENSOR_SIZE demo_config) = 2" by (simp add: demo_config_def)
  note inst = multiply_step_shape[OF s(1-3), of demo_config demo_env 0 demo_sched,
      folded demo_final_def]
  have "shape (heap (world demo_final) ! 3) = (2, 2)"
    using inst m r n by auto
  then show ?thesis using inst s v r by blast
qed

subsection \<open>The deadline of a worker\<close>

text \<open>
  Claim C10. In every run, a worker that has computed its deadline \<open>e\<close> has both its
  matrices allocated, and the clock reading the deadline was computed from,
  \<open>e - D\<close>, is no earlier than the moment the second allocation was complete: the time
  the allocations took is no part of D. A worker that has returned did so at least D
  after that reading, which is the time it spent in its loop.
\<close>

theorem deadline_after_allocation:
  assumes "f \<in> set (threads (run C E t sched))" and "end_time f = Some e"
  shows "\<exists>ta pa pb. alloc_done_at f = Some ta \<and> var_a f = Some pa \<and> var_b f = Some pb
           \<and> pa < length (heap (world (run C E t sched)))
           \<and> pb < length (heap (world (run C E t sched)))
           \<and> started_at f \<le> ta
           \<and> ta \<le> e - of_int (TEST_DURATION_SECONDS C)
           \<and> (pc f = Returned \<longrightarrow>
                of_int (TEST_DURATION_SECONDS C)
                  \<le> hd (checks f) - (e - of_int (TEST_DURATION_SECONDS C)))"
proof -
  define w where "w = world (run C E t sched)"
  have fo: "frame_ok C w f" using reach_frame[OF assms(1)] by (simp add: w_def)
  have st: "4 \<le> stage (pc f)"
    using fo assms(2) by (auto simp: frame_ok_def timing_ok_def split: if_splits)
  then obtain ta where ta: "alloc_done_at f = Some ta" "started_at f \<le> ta"
    "ta + duration C \<le> e"
    using fo assms(2) by (auto simp: frame_ok_def timing_ok_def split: if_splits)
  have "square_at C w (kind f) (var_a f)" "square_at C w (kind f) (var_b f)"
    using fo st by (auto simp: frame_ok_def vars_ok_def split: if_splits)
  then obtain pa pb where ab: "var_a f = Some pa" "var_b f = Some pb"
    "pa < length (heap w)" "pb < length (heap w)"
    by (auto simp: square_at_def split: option.splits)
  have r: "of_int (TEST_DURATION_SECONDS C)
             \<le> hd (checks f) - (e - of_int (TEST_DURATION_SECONDS C))" if "pc f = Returned"
    using returned_facts[OF fo that] assms(2) by auto
  show ?thesis
    using ta ab r by (auto simp: duration_def w_def[symmetric])
qed

theorem deadline_after_allocation_witness:
  "threads demo_final ! 0 \<in> set (threads demo_final)
   \<and> end_time (threads demo_final ! 0) = Some 6
   \<and> alloc_done_at (threads demo_final ! 0) = Some 2
   \<and> var_a (threads demo_final ! 0) = Some 0
   \<and> var_b (threads demo_final ! 0) = Some 1
   \<and> TEST_DURATION_SECONDS demo_config = 4
   \<and> pc (threads demo_final ! 0) = Returned
   \<and> hd (checks (threads demo_final ! 0)) = 8
   \<and> (2::rat) \<le> 6 - 4
   \<and> (4::rat) \<le> 8 - (6 - 4)"
proof -
  have m: "threads (run demo_config demo_env 0 demo_sched) ! 0
           \<in> set (threads (run demo_config demo_env 0 demo_sched))"
    using demo_threads_length by (simp add: demo_final_def)
  have e: "end_time (threads (run demo_config demo_env 0 demo_sched) ! 0) = Some 6"
    using demo_cpu_frame by (simp add: demo_final_def)
  show ?thesis
    using deadline_after_allocation[OF m e] m demo_cpu_frame
    by (simp add: demo_final_def demo_config_def)
qed

text \<open>
  Claim C9. With a duration D of zero or less (and a side length that is not negative),
  in every run each worker never enters the body of its loop and never binds a result; a
  worker that has returned has printed its start message, holds its two allocated
  matrices and has evaluated its loop condition exactly once. From any point of a run,
  five steps of the worker's own are enough for it to have returned: the lines before
  the loop and the one evaluation of the condition.
\<close>

theorem nonpositive_duration_no_iteration:
  assumes "TEST_DURATION_SECONDS C \<le> 0" and "0 \<le> TENSOR_SIZE C"
    and "i < length (threads (run C E t sched))"
  shows "pc (threads (run C E t sched) ! i) \<noteq> L_multiply
         \<and> var_result (threads (run C E t sched) ! i) = None
         \<and> (pc (threads (run C E t sched) ! i) = Returned \<longrightarrow>
              (\<exists>pa pb. var_a (threads (run C E t sched) ! i) = Some pa
                  \<and> var_b (threads (run C E t sched) ! i) = Some pb
                  \<and> pa < length (heap (world (run C E t sched)))
                  \<and> pb < length (heap (world (run C E t sched))))
              \<and> (case kind (threads (run C E t sched) ! i) of
                    CPU \<Rightarrow> ''[CPU] Starting CPU load...''
                  | GPU \<Rightarrow> ''[GPU] Starting GPU load...'')
                  \<in> set (stdout (world (run C E t sched)))
              \<and> length (checks (threads (run C E t sched) ! i)) = 1)
         \<and> pc (threads (run C E t (sched @ replicate 5 (RunThread i))) ! i) = Returned"
proof -
  define s where "s = run C E t sched"
  define f where "f = threads s ! i"
  have mem: "f \<in> set (threads s)" using assms(3) by (simp add: f_def s_def)
  have fo: "frame_ok C (world s) f" using reach_frame[of f C E t sched] mem by (simp add: s_def)
  note np = nonpositive_facts[OF fo assms(1)]
  have ret: "(\<exists>pa pb. var_a f = Some pa \<and> var_b f = Some pb
                \<and> pa < length (heap (world s)) \<and> pb < length (heap (world s)))
             \<and> worker_msg (kind f) \<in> set (stdout (world s))
             \<and> length (checks f) = 1" if r: "pc f = Returned"
  proof -
    have "square_at C (world s) (kind f) (var_a f)" "square_at C (world s) (kind f) (var_b f)"
      using fo r by (auto simp: frame_ok_def vars_ok_def stage_def)
    then have ab: "\<exists>pa pb. var_a f = Some pa \<and> var_b f = Some pb
                \<and> pa < length (heap (world s)) \<and> pb < length (heap (world s))"
      by (auto simp: square_at_def split: option.splits)
    have "0 < announced (kind f) (threads s)"
      using announced_pos[OF mem] r by simp
    then have "0 < count_list (stdout (world s)) (worker_msg (kind f))"
      using out_ok_run[of C E t sched] by (cases "kind f") (simp_all add: out_ok_def s_def)
    then have pr: "worker_msg (kind f) \<in> set (stdout (world s))"
      by (simp add: count_list_pos_iff)
    have "checks f \<noteq> []" using fo r by (simp add: frame_ok_def vars_ok_def)
    then have "length (checks f) = 1" using np by (cases "checks f") auto
    then show ?thesis using ab pr by blast
  qed
  define s5 where "s5 = run C E t (sched @ replicate 5 (RunThread i))"
  have c5: "i < length (threads s5)" "remaining (pc (threads s5 ! i)) = 0"
    using countdown[OF assms, of 5] remaining_le[of "pc (threads (run C E t sched) ! i)"]
    by (simp_all add: s5_def)
  have "frame_ok C (world s5) (threads s5 ! i)"
    using reach_frame[of "threads s5 ! i" C E t "sched @ replicate 5 (RunThread i)"] c5(1)
    by (simp add: s5_def)
  then have "\<And>e. pc (threads s5 ! i) \<noteq> Raised e"
    using assms(2) by (auto simp: frame_ok_def vars_ok_def)
  then have fin: "pc (threads s5 ! i) = Returned"
    using remaining_zero[OF c5(2)] by blast
  show ?thesis
    using np ret fin
    by (simp add: f_def[symmetric] s_def[symmetric] s5_def[symmetric] worker_msg_def)
qed

theorem nonpositive_duration_no_iteration_witness:
  "TEST_DURATION_SECONDS idle_config \<le> 0 \<and> 0 \<le> TENSOR_SIZE idle_config
   \<and> (0::nat) < length (threads (run idle_config demo_env 0 idle_sched))
   \<and> threads (run idle_config demo_env 0 idle_sched) ! 0
       = \<lparr>kind = CPU, pc = Returned, var_a = Some 0, var_b = Some 1, end_time = Some 2,
          var_result = None, started_at = 0, alloc_done_at = Some 2, checks = [2]\<rparr>
   \<and> length (heap (world (run idle_config demo_env 0 idle_sched))) = 2
   \<and> ''[CPU] Starting CPU load...'' \<in> set (stdout (world (run idle_config demo_env 0 idle_sched)))
   \<and> pc (threads (run idle_config demo_env 0 (idle_sched @ replicate 5 (RunThread 0))) ! 0)
       = Returned"
proof -
  have h: "TEST_DURATION_SECONDS idle_config \<le> 0" "0 \<le> TENSOR_SIZE idle_config"
    by (simp_all add: idle_config_def)
  have i: "(0::nat) < length (threads (run idle_config demo_env 0 idle_sched))"
    by code_simp
  have f: "threads (run idle_config demo_env 0 idle_sched) ! 0
       = \<lparr>kind = CPU, pc = Returned, var_a = Some 0, var_b = Some 1, end_time = Some 2,
          var_result = None, started_at = 0, alloc_done_at = Some 2, checks = [2]\<rparr>"
    by code_simp
  have l: "length (heap (world (run idle_config demo_env 0 idle_sched))) = 2"
    by code_simp
  show ?thesis
    using nonpositive_duration_no_iteration[OF h i] h i f l by simp
qed

text \<open>
  Claim C2, as amended. In every run, a worker that has returned computed its deadline
  \<open>e\<close> as a clock reading plus D, the reading taken once both matrices were allocated and
  so no earlier than the start of its thread; it returned at the first reading of its
  loop condition that was not before \<open>e\<close>, hence not before its start plus D; and either
  it made no pass through the loop, or the reading before its last pass was still before
  \<open>e\<close>, so that it returned less than the time of that last pass after \<open>e\<close>. Once the
  clock has reached the deadline of a worker, two steps of its own are enough for it to
  have returned.
\<close>

theorem worker_returns_after_deadline:
  assumes "i < length (threads (run C E t sched))"
  shows "(pc (threads (run C E t sched) ! i) = Returned \<longrightarrow>
           (\<exists>e ta. end_time (threads (run C E t sched) ! i) = Some e
              \<and> alloc_done_at (threads (run C E t sched) ! i) = Some ta
              \<and> started_at (threads (run C E t sched) ! i) \<le> ta
              \<and> ta \<le> e - of_int (TEST_DURATION_SECONDS C)
              \<and> started_at (threads (run C E t sched) ! i) + of_int (TEST_DURATION_SECONDS C)
                  \<le> hd (checks (threads (run C E t sched) ! i))
              \<and> e \<le> hd (checks (threads (run C E t sched) ! i))
              \<and> (length (checks (threads (run C E t sched) ! i)) = 1
                  \<or> hd (checks (threads (run C E t sched) ! i))
                      < e + (hd (checks (threads (run C E t sched) ! i))
                             - hd (tl (checks (threads (run C E t sched) ! i)))))))
         \<and> (\<forall>e. end_time (threads (run C E t sched) ! i) = Some e
                 \<and> e \<le> clock (world (run C E t sched)) \<longrightarrow>
               pc (threads (run C E t (sched @ [RunThread i, RunThread i])) ! i) = Returned)"
proof -
  define s where "s = run C E t sched"
  define f where "f = threads s ! i"
  have mem: "f \<in> set (threads s)" using assms by (simp add: f_def s_def)
  have fo: "frame_ok C (world s) f" using reach_frame[of f C E t sched] mem by (simp add: s_def)
  have tr: "traces_ok C (world s)" using reach_traces[of C E t sched] by (simp add: s_def)
  have safe: "\<exists>e ta. end_time f = Some e \<and> alloc_done_at f = Some ta
              \<and> started_at f \<le> ta \<and> ta \<le> e - of_int (TEST_DURATION_SECONDS C)
              \<and> started_at f + of_int (TEST_DURATION_SECONDS C) \<le> hd (checks f)
              \<and> e \<le> hd (checks f)
              \<and> (length (checks f) = 1 \<or> hd (checks f) < e + (hd (checks f) - hd (tl (checks f))))"
    if r: "pc f = Returned"
  proof -
    from returned_facts[OF fo r] obtain e ta c cs where
      x: "end_time f = Some e" "alloc_done_at f = Some ta" "checks f = c # cs"
        "started_at f \<le> ta" "ta + duration C \<le> e" "e \<le> c"
        "case cs of [] \<Rightarrow> True | c' # _ \<Rightarrow> c' < e \<and> e - duration C \<le> c'"
      by blast
    have "length (checks f) = 1 \<or> hd (checks f) < e + (hd (checks f) - hd (tl (checks f)))"
      using x(3,7) by (cases cs) auto
    then show ?thesis using x by (auto simp: duration_def)
  qed
  define s1 where "s1 = run C E t (sched @ [RunThread i])"
  define s2 where "s2 = run C E t (sched @ [RunThread i, RunThread i])"
  have live: "pc (threads s2 ! i) = Returned"
    if e: "end_time f = Some e" and c: "e \<le> clock (world s)" for e
  proof -
    have st1: "threads s1 ! i = fst (worker_step C E f (world s))"
      "world s1 = snd (worker_step C E f (world s))" "length (threads s1) = length (threads s)"
      using run_snoc_thread[OF assms] by (simp_all add: s1_def f_def s_def)
    have i1: "i < length (threads (run C E t (sched @ [RunThread i])))"
      using st1(3) assms by (simp add: s1_def s_def)
    have st2: "threads s2 ! i = fst (worker_step C E (threads s1 ! i) (world s1))"
      using run_snoc_thread(1)[OF i1] by (simp add: s2_def s1_def)
    have "4 \<le> stage (pc f)"
      using fo e by (auto simp: frame_ok_def timing_ok_def split: if_splits)
    then have "pc f = L_while \<or> pc f = L_multiply \<or> pc f = Returned"
      by (cases "pc f") (simp_all add: stage_def)
    then show ?thesis
    proof (elim disjE)
      assume p: "pc f = Returned"
      then show ?thesis by (simp add: st2 st1 step_finished is_finished_def)
    next
      assume p: "pc f = L_while"
      have "pc (threads s1 ! i) = Returned"
        using c by (simp add: st1 step_while[OF p e])
      then show ?thesis by (simp add: st2 step_finished is_finished_def)
    next
      assume p: "pc f = L_multiply"
      from fo p obtain pa pb where
        ab: "var_a f = Some pa" "var_b f = Some pb"
          "square_at C (world s) (kind f) (Some pa)" "square_at C (world s) (kind f) (Some pb)"
        by (auto simp: frame_ok_def vars_ok_def stage_def square_at_def split: option.splits)
      note m = step_multiply[OF p ab tr, of E]
      have p1: "pc (threads s1 ! i) = L_while" and e1: "end_time (threads s1 ! i) = Some e"
        and c1: "clock (world s1) = clock (world s)"
        using e by (simp_all add: st1 m multiplied_def split: kind.splits)
      show ?thesis
        using c by (simp add: st2 step_while[OF p1 e1] c1)
    qed
  qed
  show ?thesis
    using safe live
    by (simp add: f_def[symmetric] s_def[symmetric] s2_def[symmetric])
qed

theorem worker_returns_after_deadline_witness:
  "(0::nat) < length (threads demo_final)
   \<and> pc (threads demo_final ! 0) = Returned
   \<and> end_time (threads demo_final ! 0) = Some 6
   \<and> alloc_done_at (threads demo_final ! 0) = Some 2
   \<and> started_at (threads demo_final ! 0) = 0
   \<and> checks (threads demo_final ! 0) = [8, 5, 2]
   \<and> TEST_DURATION_SECONDS demo_config = 4
   \<and> (2::rat) \<le> 6 - 4 \<and> (0::rat) + 4 \<le> 8 \<and> (6::rat) \<le> 8 \<and> (8::rat) < 6 + (8 - 5)
   \<and> (6::rat) \<le> clock (world demo_final)
   \<and> pc (threads (run demo_config demo_env 0 (demo_sched @ [RunThread 0, RunThread 0])) ! 0)
       = Returned"
proof -
  have i: "(0::nat) < length (threads (run demo_config demo_env 0 demo_sched))"
    using demo_threads_length by (simp add: demo_final_def)
  have c: "clock (world demo_final) = 13"
    unfolding demo_final_def by code_simp
  show ?thesis
    using worker_returns_after_deadline[OF i] demo_cpu_frame demo_threads_length c
    by (simp add: demo_final_def demo_config_def)
qed

text \<open>
  Claim C2 as stated fails where it bounds the return by the start of the worker plus D
  plus the time of one pass: the deadline counts from a reading taken after the
  allocations. Here the thread of the CPU worker is started at 0 with D = 4, its
  allocations are complete at 2, every pass of its loop takes 3 (the condition is read at
  2, 5 and 8), and it returns at 8, later than 0 + 4 + 3.
\<close>

theorem worker_return_not_bounded_from_start:
  "pc (threads demo_final ! 0) = Returned
   \<and> started_at (threads demo_final ! 0) = 0
   \<and> TEST_DURATION_SECONDS demo_config = 4
   \<and> checks (threads demo_final ! 0) = [8, 5, 2]
   \<and> \<not> hd (checks (threads demo_final ! 0))
          \<le> started_at (threads demo_final ! 0)
              + of_int (TEST_DURATION_SECONDS demo_config) + 3"
  by (simp add: demo_cpu_frame demo_config_def)

subsection \<open>Side lengths that are not positive\<close>

text \<open>
  Claim C3, as amended. With a negative side length, in every run a worker is at its
  first two lines or has raised the error of its allocation call (\<^verbatim>\<open>ValueError\<close> from
  \<^verbatim>\<open>np.random.rand\<close>, \<^verbatim>\<open>InvalidArgumentError\<close> from \<^verbatim>\<open>tf.random.normal\<close>), it
  holds no matrix and has never evaluated its loop condition, and two steps of its own
  are enough for it to have raised. With a side length of zero no worker ever raises:
  its matrices are allocated with shape 0 by 0, and four steps of its own are enough for
  it to be in its loop or past it.
\<close>

theorem negative_size_raises_zero_size_proceeds:
  assumes "i < length (threads (run C E t sched))"
  shows "(TENSOR_SIZE C < 0 \<longrightarrow>
            (pc (threads (run C E t sched) ! i) = L_print
             \<or> pc (threads (run C E t sched) ! i) = L_alloc_a
             \<or> pc (threads (run C E t sched) ! i)
                 = Raised (case kind (threads (run C E t sched) ! i) of
                             CPU \<Rightarrow> ValueError | GPU \<Rightarrow> InvalidArgumentError))
            \<and> var_a (threads (run C E t sched) ! i) = None
            \<and> var_b (threads (run C E t sched) ! i) = None
            \<and> checks (threads (run C E t sched) ! i) = []
            \<and> pc (threads (run C E t (sched @ [RunThread i, RunThread i])) ! i)
                = Raised (case kind (threads (run C E t sched) ! i) of
                            CPU \<Rightarrow> ValueError | GPU \<Rightarrow> InvalidArgumentError))
         \<and> (TENSOR_SIZE C = 0 \<longrightarrow>
              (\<forall>e. pc (threads (run C E t sched) ! i) \<noteq> Raised e)
              \<and> (\<forall>p. var_a (threads (run C E t sched) ! i) = Some p
                      \<or> var_b (threads (run C E t sched) ! i) = Some p \<longrightarrow>
                    shape (heap (world (run C E t sched)) ! p) = (0, 0))
              \<and> (pc (threads (run C E t (sched @ replicate 4 (RunThread i))) ! i) = L_while
                  \<or> pc (threads (run C E t (sched @ replicate 4 (RunThread i))) ! i) = L_multiply
                  \<or> pc (threads (run C E t (sched @ replicate 4 (RunThread i))) ! i) = Returned))"
proof -
  define s where "s = run C E t sched"
  define f where "f = threads s ! i"
  have mem: "f \<in> set (threads s)" using assms by (simp add: f_def s_def)
  have fo: "frame_ok C (world s) f" using reach_frame[of f C E t sched] mem by (simp add: s_def)
  define s2 where "s2 = run C E t (sched @ [RunThread i, RunThread i])"
  define s4 where "s4 = run C E t (sched @ replicate 4 (RunThread i))"
  have neg: "(pc f = L_print \<or> pc f = L_alloc_a \<or> pc f = Raised (alloc_error (kind f)))
             \<and> var_a f = None \<and> var_b f = None \<and> checks f = []
             \<and> pc (threads s2 ! i) = Raised (alloc_error (kind f))"
    if n: "TENSOR_SIZE C < 0"
  proof -
    note nf = negative_size_frame[OF fo n]
    define s1 where "s1 = run C E t (sched @ [RunThread i])"
    have st1: "threads s1 ! i = fst (worker_step C E f (world s))"
      "length (threads s1) = length (threads s)"
      using run_snoc_thread[OF assms] by (simp_all add: s1_def f_def s_def)
    have i1: "i < length (threads (run C E t (sched @ [RunThread i])))"
      using st1(2) assms by (simp add: s1_def s_def)
    have st2: "threads s2 ! i = fst (worker_step C E (threads s1 ! i) (world s1))"
      using run_snoc_thread(1)[OF i1] by (simp add: s2_def s1_def)
    have "pc f = L_print \<or> pc f = L_alloc_a \<or> pc f = Raised (alloc_error (kind f))"
      using nf by blast
    then have "pc (threads s2 ! i) = Raised (alloc_error (kind f))"
    proof (elim disjE)
      assume p: "pc f = L_print"
      have p1: "pc (threads s1 ! i) = L_alloc_a" and k1: "kind (threads s1 ! i) = kind f"
        by (simp_all add: st1 step_print[OF p])
      show ?thesis using n by (simp add: st2 step_alloc_a[OF p1] k1)
    next
      assume p: "pc f = L_alloc_a"
      have p1: "is_finished (threads s1 ! i)"
        and p2: "pc (threads s1 ! i) = Raised (alloc_error (kind f))"
        using n by (simp_all add: st1 step_alloc_a[OF p] is_finished_def)
      show ?thesis by (simp add: st2 step_finished[OF p1] p2)
    next
      assume p: "pc f = Raised (alloc_error (kind f))"
      then have fin: "is_finished f" by (simp add: is_finished_def)
      have "threads s1 ! i = f" by (simp add: st1 step_finished[OF fin])
      then show ?thesis by (simp add: st2 step_finished[OF fin] p)
    qed
    then show ?thesis using nf by blast
  qed
  have zero: "(\<forall>e. pc f \<noteq> Raised e)
              \<and> (\<forall>p. var_a f = Some p \<or> var_b f = Some p \<longrightarrow>
                    shape (heap (world s) ! p) = (0, 0))
              \<and> (pc (threads s4 ! i) = L_while \<or> pc (threads s4 ! i) = L_multiply
                  \<or> pc (threads s4 ! i) = Returned)"
    if z: "TENSOR_SIZE C = 0"
  proof -
    have a: "\<forall>e. pc f \<noteq> Raised e" using fo z by (auto simp: frame_ok_def vars_ok_def)
    have b: "\<forall>p. var_a f = Some p \<or> var_b f = Some p \<longrightarrow>
                    shape (heap (world s) ! p) = (0, 0)"
      using matrices_shape_aux fo z by blast
    have nn: "0 \<le> TENSOR_SIZE C" using z by simp
    have c4: "i < length (threads s4)" "setup_left (pc (threads s4 ! i)) = 0"
      using setup_steps[OF nn assms, of 4] setup_left_le[of "pc (threads (run C E t sched) ! i)"]
      by (simp_all add: s4_def)
    have "frame_ok C (world s4) (threads s4 ! i)"
      using reach_frame[of "threads s4 ! i" C E t "sched @ replicate 4 (RunThread i)"] c4(1)
      by (simp add: s4_def)
    then have "\<And>e. pc (threads s4 ! i) \<noteq> Raised e"
      using z by (auto simp: frame_ok_def vars_ok_def)
    then have "pc (threads s4 ! i) = L_while \<or> pc (threads s4 ! i) = L_multiply
               \<or> pc (threads s4 ! i) = Returned"
      using setup_left_zero[OF c4(2)] by blast
    then show ?thesis using a b by blast
  qed
  show ?thesis
    using neg zero
    by (simp add: f_def[symmetric] s_def[symmetric] s2_def[symmetric] s4_def[symmetric]
        alloc_error_def)
qed

theorem negative_size_raises_zero_size_proceeds_witness:
  "TENSOR_SIZE negative_config < 0
   \<and> (0::nat) < length (threads (run negative_config demo_env 0 [RunMain, RunMain, RunThread 0]))
   \<and> threads (run negative_config demo_env 0 [RunMain, RunMain, RunThread 0]) ! 0
       = \<lparr>kind = CPU, pc = L_alloc_a, var_a = None, var_b = None, end_time = None,
          var_result = None, started_at = 0, alloc_done_at = None, checks = []\<rparr>
   \<and> pc (threads (run negative_config demo_env 0
                    ([RunMain, RunMain, RunThread 0] @ [RunThread 0, RunThread 0])) ! 0)
       = Raised ValueError
   \<and> TENSOR_SIZE empty_config = 0
   \<and> (0::nat) < length (threads (run empty_config demo_env 0 short_sched))
   \<and> var_a (threads (run empty_config demo_env 0 short_sched) ! 0) = Some 0
   \<and> shape (heap (world (run empty_config demo_env 0 short_sched)) ! 0) = (0, 0)
   \<and> pc (threads (run empty_config demo_env 0 short_sched) ! 0) = L_while
   \<and> pc (threads (run empty_config demo_env 0 (short_sched @ replicate 4 (RunThread 0))) ! 0)
       = L_while"
proof -
  have n: "TENSOR_SIZE negative_config < 0" "\<not> TENSOR_SIZE negative_config = 0"
    and z: "TENSOR_SIZE empty_config = 0" "\<not> TENSOR_SIZE empty_config < 0"
    by (simp_all add: negative_config_def empty_config_def)
  have i: "(0::nat) < length (threads (run negative_config demo_env 0 [RunMain, RunMain, RunThread 0]))"
    by code_simp
  have f: "threads (run negative_config demo_env 0 [RunMain, RunMain, RunThread 0]) ! 0
       = \<lparr>kind = CPU, pc = L_alloc_a, var_a = None, var_b = None, end_time = None,
          var_result = None, started_at = 0, alloc_done_at = None, checks = []\<rparr>"
    by code_simp
  have j: "(0::nat) < length (threads (run empty_config demo_env 0 short_sched))"
    by code_simp
  have g: "threads (run empty_config demo_env 0 short_sched) ! 0
       = \<lparr>kind = CPU, pc = L_while, var_a = Some 0, var_b = Some 1, end_time = Some 4,
          var_result = Some 2, started_at = 0, alloc_done_at = Some 0, checks = [0]\<rparr>"
    by code_simp
  have l: "pc (threads (run empty_config demo_env 0 (short_sched @ replicate 4 (RunThread 0))) ! 0)
       = L_while"
    by code_simp
  have a: "pc (threads (run negative_config demo_env 0
                    ([RunMain, RunMain, RunThread 0] @ [RunThread 0, RunThread 0])) ! 0)
       = Raised ValueError"
    using negative_size_raises_zero_size_proceeds[OF i] n f by simp
  have b: "shape (heap (world (run empty_config demo_env 0 short_sched)) ! 0) = (0, 0)"
    using negative_size_raises_zero_size_proceeds[OF j] z g by simp
  show ?thesis using n z i f j g l a b by simp
qed

text \<open>
  Claim C3 as stated fails for a side length of zero: no call checks it, the two
  allocations return empty matrices, and the CPU worker goes on into its loop, where its
  first multiply step returns a third empty matrix.
\<close>

theorem zero_size_enters_loop:
  "TENSOR_SIZE empty_config = 0
   \<and> threads (run empty_config demo_env 0 short_sched) ! 0
       = \<lparr>kind = CPU, pc = L_while, var_a = Some 0, var_b = Some 1, end_time = Some 4,
          var_result = Some 2, started_at = 0, alloc_done_at = Some 0, checks = [0]\<rparr>
   \<and> heap (world (run empty_config demo_env 0 short_sched))
       = [\<lparr>shape = (0, 0), dtype = Float64, device = Host, data = []\<rparr>,
          \<lparr>shape = (0, 0), dtype = Float64, device = Host, data = []\<rparr>,
          \<lparr>shape = (0, 0), dtype = Float64, device = Host, data = []\<rparr>]"
proof -
  have z: "TENSOR_SIZE empty_config = 0" by (simp add: empty_config_def)
  have g: "threads (run empty_config demo_env 0 short_sched) ! 0
       = \<lparr>kind = CPU, pc = L_while, var_a = Some 0, var_b = Some 1, end_time = Some 4,
          var_result = Some 2, started_at = 0, alloc_done_at = Some 0, checks = [0]\<rparr>"
    by code_simp
  have h: "heap (world (run empty_config demo_env 0 short_sched))
       = [\<lparr>shape = (0, 0), dtype = Float64, device = Host, data = []\<rparr>,
          \<lparr>shape = (0, 0), dtype = Float64, device = Host, data = []\<rparr>,
          \<lparr>shape = (0, 0), dtype = Float64, device = Host, data = []\<rparr>]"
    by code_simp
  show ?thesis using z g h by simp
qed

subsection \<open>Ownership of the matrices\<close>

text \<open>
  Claim C5. Take any point of any run and a worker there. A matrix it has bound to
  \<^verbatim>\<open>a\<close> or to \<^verbatim>\<open>b\<close> is an allocated object filled with values drawn from the random
  source, \<^verbatim>\<open>a\<close> and \<^verbatim>\<open>b\<close> are different objects, and no other worker has the object
  bound to its \<^verbatim>\<open>a\<close> or \<^verbatim>\<open>b\<close>. However the run goes on from there (steps of this
  worker, of the others, of \<^verbatim>\<open>main\<close>, multiply steps included), the worker keeps the
  same object bound and the object keeps its contents: each name is bound once and what
  it is bound to is never written again.
\<close>

theorem operands_bound_once_private_unchanged:
  assumes "i < length (threads (run C E t sched))"
  shows "(\<forall>p. var_a (threads (run C E t sched) ! i) = Some p \<longrightarrow>
            var_a (threads (run C E t (sched @ rest)) ! i) = Some p
            \<and> heap (world (run C E t (sched @ rest))) ! p = heap (world (run C E t sched)) ! p)
         \<and> (\<forall>p. var_b (threads (run C E t sched) ! i) = Some p \<longrightarrow>
               var_b (threads (run C E t (sched @ rest)) ! i) = Some p
               \<and> heap (world (run C E t (sched @ rest))) ! p
                   = heap (world (run C E t sched)) ! p)
         \<and> (\<forall>p. var_a (threads (run C E t sched) ! i) = Some p
                 \<or> var_b (threads (run C E t sched) ! i) = Some p \<longrightarrow>
               p < length (heap (world (run C E t sched)))
               \<and> (\<exists>n. data (heap (world (run C E t sched)) ! p)
                        = map (entropy E)
                            [n ..< n + nat (TENSOR_SIZE C) * nat (TENSOR_SIZE C)]))
         \<and> (\<forall>p. var_a (threads (run C E t sched) ! i) = Some p \<longrightarrow>
               var_b (threads (run C E t sched) ! i) \<noteq> Some p)
         \<and> (\<forall>j p. j < length (threads (run C E t sched))
                 \<and> (var_a (threads (run C E t sched) ! i) = Some p
                    \<or> var_b (threads (run C E t sched) ! i) = Some p)
                 \<and> (var_a (threads (run C E t sched) ! j) = Some p
                    \<or> var_b (threads (run C E t sched) ! j) = Some p) \<longrightarrow>
               j = i)"
proof -
  define s where "s = run C E t sched"
  have h: "heap_ok C E s" by (simp add: s_def heap_ok_run)
  have mem: "threads s ! i \<in> set (threads s)" using assms by (simp add: s_def)
  have i: "i < length (threads s)" using assms by (simp add: s_def)
  have c: "\<forall>p. var_a (threads s ! i) = Some p \<or> var_b (threads s ! i) = Some p \<longrightarrow>
               p < length (heap (world s))
               \<and> (\<exists>n. data (heap (world s) ! p)
                        = map (entropy E) [n ..< n + nat (TENSOR_SIZE C) * nat (TENSOR_SIZE C)])"
    using h mem unfolding heap_ok_def owns_def drawn_matrix_def side_def by blast
  have d: "\<forall>p. var_a (threads s ! i) = Some p \<longrightarrow> var_b (threads s ! i) \<noteq> Some p"
    using h mem unfolding heap_ok_def by blast
  have e: "\<forall>j p. j < length (threads s)
                 \<and> (var_a (threads s ! i) = Some p \<or> var_b (threads s ! i) = Some p)
                 \<and> (var_a (threads s ! j) = Some p \<or> var_b (threads s ! j) = Some p) \<longrightarrow>
               j = i"
    using h i unfolding heap_ok_def owns_def by blast
  show ?thesis
    using operand_stable[OF assms, of rest] c d e unfolding s_def by blast
qed

lemma alloc_frames:
  "threads (run demo_config demo_env 0 alloc_sched) =
     [\<lparr>kind = CPU, pc = L_deadline, var_a = Some 0, var_b = Some 1, end_time = None,
       var_result = None, started_at = 0, alloc_done_at = Some 0, checks = []\<rparr>,
      \<lparr>kind = GPU, pc = L_deadline, var_a = Some 2, var_b = Some 3, end_time = None,
       var_result = None, started_at = 0, alloc_done_at = Some 0, checks = []\<rparr>]"
  by code_simp

lemma alloc_heap:
  "heap (world (run demo_config demo_env 0 alloc_sched)) =
     [\<lparr>shape = (2, 2), dtype = Float64, device = Host, data = [1, 2, 3, 4]\<rparr>,
      \<lparr>shape = (2, 2), dtype = Float64, device = Host, data = [5, 6, 7, 8]\<rparr>,
      \<lparr>shape = (2, 2), dtype = Float32, device = Host, data = [9, 10, 11, 12]\<rparr>,
      \<lparr>shape = (2, 2), dtype = Float32, device = Host, data = [13, 14, 15, 16]\<rparr>]"
  by code_simp

theorem operands_bound_once_private_unchanged_witness:
  "(0::nat) < length (threads (run demo_config demo_env 0 alloc_sched))
   \<and> var_a (threads (run demo_config demo_env 0 alloc_sched) ! 0) = Some 0
   \<and> var_b (threads (run demo_config demo_env 0 alloc_sched) ! 0) = Some 1
   \<and> var_a (threads (run demo_config demo_env 0 (alloc_sched @ loop_sched)) ! 0) = Some 0
   \<and> var_b (threads (run demo_config demo_env 0 (alloc_sched @ loop_sched)) ! 0) = Some 1
   \<and> var_result (threads (run demo_config demo_env 0 (alloc_sched @ loop_sched)) ! 0) = Some 6
   \<and> heap (world (run demo_config demo_env 0 (alloc_sched @ loop_sched))) ! 0
       = \<lparr>shape = (2, 2), dtype = Float64, device = Host, data = [1, 2, 3, 4]\<rparr>
   \<and> heap (world (run demo_config demo_env 0 (alloc_sched @ loop_sched))) ! 1
       = \<lparr>shape = (2, 2), dtype = Float64, device = Host, data = [5, 6, 7, 8]\<rparr>
   \<and> var_a (threads (run demo_config demo_env 0 alloc_sched) ! 1) = Some 2
   \<and> var_b (threads (run demo_config demo_env 0 alloc_sched) ! 1) = Some 3"
proof -
  have i: "(0::nat) < length (threads (run demo_config demo_env 0 alloc_sched))"
    by (simp add: alloc_frames)
  have r: "var_result (threads (run demo_config demo_env 0 (alloc_sched @ loop_sched)) ! 0)
           = Some 6"
    by code_simp
  note inst = operands_bound_once_private_unchanged[OF i, of loop_sched]
  have a: "var_a (threads (run demo_config demo_env 0 (alloc_sched @ loop_sched)) ! 0) = Some 0
           \<and> heap (world (run demo_config demo_env 0 (alloc_sched @ loop_sched))) ! 0
               = \<lparr>shape = (2, 2), dtype = Float64, device = Host, data = [1, 2, 3, 4]\<rparr>"
    using inst by (simp add: alloc_frames alloc_heap)
  have b: "var_b (threads (run demo_config demo_env 0 (alloc_sched @ loop_sched)) ! 0) = Some 1
           \<and> heap (world (run demo_config demo_env 0 (alloc_sched @ loop_sched))) ! 1
               = \<lparr>shape = (2, 2), dtype = Float64, device = Host, data = [5, 6, 7, 8]\<rparr>"
    using inst by (simp add: alloc_frames alloc_heap)
  show ?thesis using a b r by (simp add: alloc_frames)
qed

subsection \<open>The traced step of the GPU worker\<close>

text \<open>
  Claim C6. At every point of every run the cache of \<^verbatim>\<open>gpu_stress_step\<close> holds at
  most one trace (a trace is only ever added, so the step was traced at most once), and
  it holds exactly one as soon as the GPU worker has bound the result of a multiply
  step: the passes of the loop after the first run the graph that the first one built.
  Called there on any two tensors whose inner dimensions and dtypes agree, the decorated
  step returns what the undecorated function returns on them, which is \<^verbatim>\<open>tf.matmul\<close>
  of the two.
\<close>

theorem traced_step_built_once_equals_matmul:
  "length (traces (world (run C E t sched))) \<le> 1
   \<and> (\<forall>f. f \<in> set (threads (run C E t sched)) \<and> kind f = GPU \<and> var_result f \<noteq> None \<longrightarrow>
         length (traces (world (run C E t sched))) = 1)
   \<and> (\<forall>x y. snd (shape x) = fst (shape y) \<and> dtype x = dtype y \<longrightarrow>
         fst (gpu_stress_step x y (world (run C E t sched))) = gpu_stress_step_py tf_matmul x y
         \<and> gpu_stress_step_py tf_matmul x y = tf_matmul x y)"
proof -
  define w where "w = world (run C E t sched)"
  have tr: "traces_ok C w" using reach_traces[of C E t sched] by (simp add: w_def)
  have a: "length (traces w) \<le> 1" using tr by (auto simp: traces_ok_def)
  have b: "length (traces w) = 1"
    if "f \<in> set (threads (run C E t sched)) \<and> kind f = GPU \<and> var_result f \<noteq> None" for f
  proof -
    have "traces w \<noteq> []"
      using traced_ok_run[of C E t sched] that unfolding traced_ok_def w_def by blast
    then show ?thesis using tr by (auto simp: traces_ok_def)
  qed
  have c: "fst (gpu_stress_step x y w) = gpu_stress_step_py tf_matmul x y
           \<and> gpu_stress_step_py tf_matmul x y = tf_matmul x y"
    if "snd (shape x) = fst (shape y) \<and> dtype x = dtype y" for x y :: "'a ndarray"
    using gpu_stress_step_result[OF tr, of x y] that by (simp add: gpu_stress_step_py_def)
  show ?thesis using a b c unfolding w_def by blast
qed

theorem traced_step_built_once_equals_matmul_witness:
  "traces (world demo_final)
     = [((((2, 2), Float32), ((2, 2), Float32)), MatMul (Placeholder 0) (Placeholder 1))]
   \<and> threads demo_final ! 1 \<in> set (threads demo_final)
   \<and> kind (threads demo_final ! 1) = GPU
   \<and> var_result (threads demo_final ! 1) = Some 6
   \<and> length (traces (world demo_final)) = 1
   \<and> snd (shape demo_a) = fst (shape demo_b) \<and> dtype demo_a = dtype demo_b
   \<and> fst (gpu_stress_step demo_a demo_b (world demo_final)) = tf_matmul demo_a demo_b
   \<and> tf_matmul demo_a demo_b
       = Inr \<lparr>shape = (2, 2), dtype = Float32, device = Host, data = [19, 22, 43, 50]\<rparr>"
proof -
  have tr: "traces (world demo_final)
     = [((((2, 2), Float32), ((2, 2), Float32)), MatMul (Placeholder 0) (Placeholder 1))]"
    unfolding demo_final_def by code_simp
  have m: "threads demo_final ! 1 \<in> set (threads demo_final)"
    using demo_threads_length by simp
  have k: "kind (threads demo_final ! 1) = GPU" "var_result (threads demo_final ! 1) = Some 6"
    "var_result (threads demo_final ! 1) \<noteq> None"
    using demo_gpu_frame by simp_all
  have s: "snd (shape demo_a) = fst (shape demo_b) \<and> dtype demo_a = dtype demo_b"
    by (simp add: demo_a_def demo_b_def)
  have v: "tf_matmul demo_a demo_b
       = Inr \<lparr>shape = (2, 2), dtype = Float32, device = Host, data = [19, 22, 43, 50]\<rparr>"
    by code_simp
  note inst = traced_step_built_once_equals_matmul[of demo_config demo_env 0 demo_sched,
      folded demo_final_def]
  have l: "length (traces (world demo_final)) = 1" using inst m k by blast
  have e: "fst (gpu_stress_step demo_a demo_b (world demo_final)) = tf_matmul demo_a demo_b"
    using inst s by metis
  show ?thesis using tr m k s v l e by simp
qed

end
